theory Spec2Isabelle
  imports Complex_Main
begin

section \<open>Data model of \<open>src/services/storageService.ts\<close>\<close>

text \<open>
  The interface \<open>StoredObject\<close>. The fields carry the prefix \<open>obj_\<close> because \<open>id\<close>,
  \<open>x\<close> and \<open>y\<close> would otherwise hide the identity function and two common variable
  names. A JavaScript \<open>number\<close> that is only copied (the coordinates) is a \<open>real\<close>; the
  optional \<open>isText\<close> is an option.
\<close>

record StoredObject =
  obj_id :: string
  obj_name :: string
  obj_x :: real
  obj_y :: real
  obj_type :: string
  obj_emoji :: string
  obj_color :: string
  obj_isText :: "bool option"

text \<open>
  The interface declares \<open>objects: StoredObject[]\<close>, but \<open>loadObjects\<close> takes the field
  from \<open>response.json()\<close> without looking at it. So the value held under \<open>objects\<close> is
  any JSON value: an array (its elements are taken to have the \<open>StoredObject\<close> shape),
  \<open>null\<close>, a boolean, a number, a string, or an object. The code never reads inside
  such an object, which is given by its text.
\<close>

datatype objects_value =
    ItemArray "StoredObject list"
  | NullValue
  | BoolValue bool
  | NumberValue real
  | StringValue string
  | ObjectValue string

text \<open>JavaScript truthiness, as \<open>||\<close> tests it: arrays and objects are truthy,
  \<open>null\<close>, \<open>false\<close>, \<open>0\<close> and the empty string are not.\<close>

fun truthy :: "objects_value \<Rightarrow> bool" where
  "truthy (ItemArray objs) = True"
| "truthy NullValue = False"
| "truthy (BoolValue b) = b"
| "truthy (NumberValue r) = (r \<noteq> 0)"
| "truthy (StringValue text) = (text \<noteq> [])"
| "truthy (ObjectValue text) = True"

text \<open>
  The interface \<open>StorageData\<close>: the document held by the remote bin and by the cache.
  \<open>lastUpdated\<close> is only copied. \<open>version\<close> is a number with an integer value; the
  code adds 1 to it in double precision (see \<open>js_increment\<close>).
\<close>

record StorageData =
  objects :: objects_value
  lastUpdated :: string
  version :: int

text \<open>
  The entries of \<open>pendingOperations\<close> are closures. The source builds exactly three
  kinds of them, in \<open>addObject\<close>, \<open>updateObject\<close> and \<open>removeObject\<close>; each captures the
  arguments of the call.
\<close>

datatype operation =
    AddOp StoredObject
  | UpdateOp string real real
  | RemoveOp string

text \<open>The mutable fields of the class \<open>StorageService\<close>.\<close>

record StorageService =
  cache :: "StorageData option"
  pendingOperations :: "operation list"
  isProcessing :: bool
  lastVersion :: int

text \<open>The field initialisers of the class.\<close>

definition initial_service :: StorageService where
  "initial_service =
     \<lparr>cache = None, pendingOperations = [], isProcessing = False, lastVersion = 0\<rparr>"

section \<open>Numbers\<close>

text \<open>
  A JavaScript number is an IEEE double. Integers up to \<open>2^53\<close> in absolute value are
  doubles; a larger integer is rounded to 53 significant bits, to the nearest double
  and to the even one of two equally near. \<open>unit_of a\<close> is the distance between
  neighbouring doubles around \<open>a\<close>: the power of two \<open>u\<close> with \<open>a div u\<close> of 53 bits.
\<close>

fun unit_of :: "nat \<Rightarrow> nat" where
  "unit_of a = (if a < 2 ^ 53 then 1 else 2 * unit_of (a div 2))"

declare unit_of.simps [simp del]

definition double_of_int :: "int \<Rightarrow> int" where
  "double_of_int n =
     (let a = nat \<bar>n\<bar> in
      if a \<le> 2 ^ 53 then n
      else
        let u = unit_of a;
            q = a div u;
            r = a mod u;
            q' = (if 2 * r < u then q
                  else if u < 2 * r then q + 1
                  else if even q then q else q + 1)
        in if n < 0 then - int (q' * u) else int (q' * u))"

text \<open>\<open>this.lastVersion + 1\<close> on a number with an integer value.\<close>

definition js_increment :: "int \<Rightarrow> int" where
  "js_increment v = double_of_int (v + 1)"

section \<open>The network\<close>

text \<open>
  What \<open>fetch\<close> of \<open>GET .../latest\<close> and the following \<open>response.json()\<close> can give:
  the promise rejects, or a response arrives with its \<open>ok\<close> flag and a body. The body
  is not JSON (\<open>json()\<close> rejects), is the JSON value \<open>null\<close> (reading \<open>data.record\<close>
  throws a TypeError), has no truthy \<open>record\<close> property, or has a record. Each field
  of the record may be missing (a truthy record that is not an object has none of
  them). \<open>objects\<close> may hold any JSON value; \<open>lastUpdated\<close> is a string and \<open>version\<close>
  a number with an integer value, the double that \<open>JSON.parse\<close> delivers.
\<close>

record raw_record =
  r_objects :: "objects_value option"
  r_lastUpdated :: "string option"
  r_version :: "int option"

datatype json_body =
    BodyNotJson
  | BodyNull
  | BodyNoRecord
  | BodyRecord raw_record

datatype get_response =
    GetNetworkError
  | GetHttp bool json_body

text \<open>The answer to the \<open>PUT\<close> of the document: \<open>fetch\<close> rejects, or \<open>response.ok\<close>.\<close>

datatype put_outcome =
    PutNetworkError
  | PutHttp bool

fun put_succeeded :: "put_outcome \<Rightarrow> bool" where
  "put_succeeded PutNetworkError = False"
| "put_succeeded (PutHttp ok) = ok"

section \<open>Queued operations\<close>

text \<open>
  What the three closures do to \<open>this.cache.objects\<close> when it is an array:
  \<open>filter(obj => obj.id !== object.id)\<close> then \<open>push(object)\<close>;
  \<open>map(obj => obj.id === objectId ? {...obj, x, y} : obj)\<close>;
  \<open>filter(obj => obj.id !== objectId)\<close>.
\<close>

fun apply_operation :: "operation \<Rightarrow> StoredObject list \<Rightarrow> StoredObject list" where
  "apply_operation (AddOp object) objs =
     filter (\<lambda>obj. obj_id obj \<noteq> obj_id object) objs @ [object]"
| "apply_operation (UpdateOp objectId x y) objs =
     map (\<lambda>obj. if obj_id obj = objectId then obj\<lparr>obj_x := x, obj_y := y\<rparr> else obj) objs"
| "apply_operation (RemoveOp objectId) objs =
     filter (\<lambda>obj. obj_id obj \<noteq> objectId) objs"

text \<open>
  Calling a closure: it reads \<open>this.cache\<close> when it runs and does nothing on \<open>null\<close>.
  On a value that is not an array, \<open>filter\<close> and \<open>map\<close> are not functions and the call
  throws a TypeError, which is the result \<open>None\<close>.
\<close>

definition run_operation :: "operation \<Rightarrow> StorageService \<Rightarrow> StorageService option" where
  "run_operation operation s =
     (case cache s of
        None \<Rightarrow> Some s
      | Some c \<Rightarrow>
          (case objects c of
             ItemArray objs \<Rightarrow>
               Some (s\<lparr>cache := Some (c\<lparr>objects := ItemArray (apply_operation operation objs)\<rparr>)\<rparr>)
           | _ \<Rightarrow> None))"

text \<open>\<open>this.pendingOperations.forEach(operation => operation())\<close>: the closures run in
  array order; when one throws, the loop ends there (\<open>False\<close>) with the state the
  earlier ones have left.\<close>

fun forEach_operation :: "operation list \<Rightarrow> StorageService \<Rightarrow> bool \<times> StorageService" where
  "forEach_operation [] s = (True, s)"
| "forEach_operation (operation # operations) s =
     (case run_operation operation s of
        None \<Rightarrow> (False, s)
      | Some s' \<Rightarrow> forEach_operation operations s')"

text \<open>\<open>queueOperation\<close>: \<open>push\<close> onto the pending list. The debounce timer it restarts
  only decides when a later flush is requested.\<close>

definition queueOperation :: "operation \<Rightarrow> StorageService \<Rightarrow> StorageService" where
  "queueOperation operation s =
     s\<lparr>pendingOperations := pendingOperations s @ [operation]\<rparr>"

section \<open>Loading\<close>

text \<open>The document of the \<open>catch\<close> branch of \<open>loadObjects\<close>; \<open>now\<close> stands for
  \<open>new Date().toISOString()\<close>.\<close>

definition empty_document :: "string \<Rightarrow> StorageData" where
  "empty_document now = \<lparr>objects = ItemArray [], lastUpdated = now, version = 1\<rparr>"

text \<open>
  The object literal assigned to \<open>this.cache\<close>: \<open>record.objects || []\<close>,
  \<open>record.lastUpdated || now\<close>, \<open>record.version || 1\<close>. Nothing is validated: a truthy
  \<open>objects\<close> value is taken as it is.
\<close>

definition document_of_record :: "string \<Rightarrow> raw_record \<Rightarrow> StorageData" where
  "document_of_record now record =
     \<lparr>objects = (case r_objects record of
                   None \<Rightarrow> ItemArray []
                 | Some v \<Rightarrow> if truthy v then v else ItemArray []),
      lastUpdated = (case r_lastUpdated record of
                       None \<Rightarrow> now
                     | Some t \<Rightarrow> if t = [] then now else t),
      version = (case r_version record of
                   None \<Rightarrow> 1
                 | Some v \<Rightarrow> if v = 0 then 1 else v)\<rparr>"

text \<open>
  The \<open>try\<close> block of \<open>loadObjects\<close> up to the value it assigns to the cache; \<open>None\<close>
  is a throw: the rejected \<open>fetch\<close>, \<open>!response.ok\<close>, a rejected \<open>response.json()\<close>,
  or the TypeError of \<open>data.record\<close> on \<open>null\<close>. A missing record is replaced by
  \<open>{objects: [], lastUpdated: now, version: 1}\<close>.
\<close>

fun fetched_document :: "string \<Rightarrow> get_response \<Rightarrow> StorageData option" where
  "fetched_document now GetNetworkError = None"
| "fetched_document now (GetHttp ok body) =
     (if \<not> ok then None
      else case body of
             BodyNotJson \<Rightarrow> None
           | BodyNull \<Rightarrow> None
           | BodyNoRecord \<Rightarrow>
               Some (document_of_record now
                 \<lparr>r_objects = Some (ItemArray []), r_lastUpdated = Some now,
                  r_version = Some 1\<rparr>)
           | BodyRecord record \<Rightarrow> Some (document_of_record now record))"

text \<open>\<open>loadObjects\<close> returns \<open>this.cache.objects\<close>; it never throws, since the \<open>catch\<close>
  block covers the whole body and cannot throw itself. The \<open>catch\<close> branch leaves
  \<open>lastVersion\<close> alone.\<close>

definition loadObjects ::
  "string \<Rightarrow> get_response \<Rightarrow> StorageService \<Rightarrow> objects_value \<times> StorageService" where
  "loadObjects now response s =
     (case fetched_document now response of
        Some d \<Rightarrow> (objects d, s\<lparr>cache := Some d, lastVersion := version d\<rparr>)
      | None \<Rightarrow> (ItemArray [], s\<lparr>cache := Some (empty_document now)\<rparr>))"

text \<open>\<open>getCurrentObjects\<close>: \<open>this.cache?.objects || []\<close>.\<close>

definition getCurrentObjects :: "StorageService \<Rightarrow> objects_value" where
  "getCurrentObjects s =
     (case cache s of
        None \<Rightarrow> ItemArray []
      | Some c \<Rightarrow> if truthy (objects c) then objects c else ItemArray [])"

section \<open>Flushing\<close>

text \<open>
  \<open>processPendingOperations\<close> suspends once, at \<open>await fetch(..., PUT)\<close>. Its first part
  runs up to that point and either returns \<open>true\<close> at the guard (\<open>NotStarted\<close>), throws
  inside the \<open>try\<close> before the request (\<open>Threw\<close>: the \<open>catch\<close> and \<open>finally\<close> blocks run
  at once and the call returns \<open>false\<close>), or sends the request with the serialised
  cache as body (\<open>Sent\<close>). The guard's \<open>return\<close> stands before the \<open>try\<close>, so the
  \<open>finally\<close> block does not run for it.
\<close>

datatype flush_request =
    NotStarted
  | Threw
  | Sent StorageData

definition processPendingOperations_start ::
  "string \<Rightarrow> StorageService \<Rightarrow> flush_request \<times> StorageService" where
  "processPendingOperations_start now s =
     (if isProcessing s \<or> pendingOperations s = [] \<or> cache s = None then (NotStarted, s)
      else
        let s1 = s\<lparr>isProcessing := True\<rparr>;
            (completed, s2) = forEach_operation (pendingOperations s1) s1
        in if \<not> completed then (Threw, s2\<lparr>pendingOperations := [], isProcessing := False\<rparr>)
           else
             let s3 = s2\<lparr>pendingOperations := []\<rparr>
             in case cache s3 of
                  None \<Rightarrow> (Threw, s3\<lparr>pendingOperations := [], isProcessing := False\<rparr>)
                | Some c \<Rightarrow>
                    let c' = c\<lparr>version := js_increment (lastVersion s3), lastUpdated := now\<rparr>
                    in (Sent c', s3\<lparr>cache := Some c'\<rparr>))"

text \<open>
  The second part runs when the request settles: on \<open>response.ok\<close> it reads
  \<open>this.cache.version\<close>, as the cache is at that moment, into \<open>lastVersion\<close> and returns
  \<open>true\<close>; otherwise the \<open>catch\<close> block empties the queue and returns \<open>false\<close>;
  \<open>finally\<close> clears the flag.
\<close>

definition processPendingOperations_finish ::
  "put_outcome \<Rightarrow> StorageService \<Rightarrow> bool \<times> StorageService" where
  "processPendingOperations_finish outcome s =
     (if put_succeeded outcome then
        (case cache s of
           Some c \<Rightarrow> (True, s\<lparr>lastVersion := version c, isProcessing := False\<rparr>)
         | None \<Rightarrow> (False, s\<lparr>pendingOperations := [], isProcessing := False\<rparr>))
      else (False, s\<lparr>pendingOperations := [], isProcessing := False\<rparr>))"

text \<open>
  One whole call with nothing else running while it waits: the returned boolean, the
  \<open>PUT\<close> request it issued (if any), and the state afterwards.
\<close>

definition processPendingOperations ::
  "string \<Rightarrow> put_outcome \<Rightarrow> StorageService \<Rightarrow> bool \<times> StorageData option \<times> StorageService" where
  "processPendingOperations now outcome s =
     (case processPendingOperations_start now s of
        (NotStarted, s') \<Rightarrow> (True, None, s')
      | (Threw, s') \<Rightarrow> (False, None, s')
      | (Sent body, s') \<Rightarrow>
          (let (ok, s'') = processPendingOperations_finish outcome s'
           in (ok, Some body, s'')))"

text \<open>\<open>forceSave\<close>: the \<open>clearTimeout\<close> call changes no field of the class.\<close>

definition forceSave ::
  "string \<Rightarrow> put_outcome \<Rightarrow> StorageService \<Rightarrow> bool \<times> StorageData option \<times> StorageService" where
  "forceSave now outcome s = processPendingOperations now outcome s"

section \<open>The mutating calls\<close>

text \<open>Each awaits \<open>loadObjects\<close> when the cache is absent (\<open>response\<close> is what that
  load receives), queues its closure and returns \<open>true\<close>.\<close>

definition ensure_loaded :: "string \<Rightarrow> get_response \<Rightarrow> StorageService \<Rightarrow> StorageService" where
  "ensure_loaded now response s =
     (if cache s = None then snd (loadObjects now response s) else s)"


definition updateObject ::
  "string \<Rightarrow> get_response \<Rightarrow> string \<Rightarrow> real \<Rightarrow> real \<Rightarrow> StorageService
     \<Rightarrow> bool \<times> StorageService" where
  "updateObject now response objectId x y s =
     (True, queueOperation (UpdateOp objectId x y) (ensure_loaded now response s))"

definition removeObject ::
  "string \<Rightarrow> get_response \<Rightarrow> string \<Rightarrow> StorageService \<Rightarrow> bool \<times> StorageService" where
  "removeObject now response objectId s =
     (True, queueOperation (RemoveOp objectId) (ensure_loaded now response s))"

section \<open>Pull and merge\<close>

text \<open>
  \<open>syncObjects\<close>: \<open>mergedObjects\<close> starts as a copy of the loaded array, and the
  \<open>forEach\<close> over the local objects pushes each one for which \<open>serverObjects.find\<close>
  finds no object with its id. The search runs over the loaded array, not over the
  growing copy.
\<close>

definition merge_step ::
  "StoredObject list \<Rightarrow> StoredObject \<Rightarrow> StoredObject list \<Rightarrow> StoredObject list" where
  "merge_step serverObjects localObj mergedObjects =
     (if find (\<lambda>serverObj. obj_id serverObj = obj_id localObj) serverObjects = None
      then mergedObjects @ [localObj] else mergedObjects)"

text \<open>
  What \<open>syncObjects\<close> returns: an array of objects, or, in one corner, the array of the
  characters of a string. When the loaded value is not an array, the spread
  \<open>[...serverObjects]\<close> throws unless the value is a string, whose characters it
  copies; on a string \<open>serverObjects.find\<close> is not a function, so the first local
  object makes the loop throw. Every throw ends in \<open>catch\<close>, which returns
  \<open>localObjects\<close>.
\<close>

datatype sync_result =
    Objects "StoredObject list"
  | Characters string

definition syncObjects ::
  "string \<Rightarrow> get_response \<Rightarrow> StoredObject list \<Rightarrow> StorageService
     \<Rightarrow> sync_result \<times> StorageService" where
  "syncObjects now response localObjects s =
     (let (serverObjects, s') = loadObjects now response s
      in case serverObjects of
           ItemArray server \<Rightarrow> (Objects (fold (merge_step server) localObjects server), s')
         | StringValue text \<Rightarrow>
             (if localObjects = [] then Characters text else Objects localObjects, s')
         | _ \<Rightarrow> (Objects localObjects, s'))"

section \<open>The service and the remote bin over time\<close>

text \<open>
  The calls of the service are asynchronous tasks on one event loop. A run of the
  system is a list of events: a closure is queued, a flush is requested (by the
  debounce timer or by \<open>forceSave\<close>), the pending \<open>PUT\<close> settles, a load completes.
  Beside the service the state holds the \<open>PUT\<close> requests sent and not yet answered, all
  \<open>PUT\<close> requests sent so far, and the document in the remote bin. The bin is not
  code of the repository: a \<open>PUT\<close> answered with \<open>ok\<close> replaces its document by the
  request body, a failed one leaves it.
\<close>

record system =
  service :: StorageService
  in_flight :: "StorageData list"
  requests :: "StorageData list"
  stored :: "StorageData option"

datatype event =
    Queued operation
  | FlushRequested string
  | PutSettled put_outcome
  | Loaded string get_response

fun step :: "event \<Rightarrow> system \<Rightarrow> system" where
  "step (Queued operation) w = w\<lparr>service := queueOperation operation (service w)\<rparr>"
| "step (FlushRequested now) w =
     (case processPendingOperations_start now (service w) of
        (Sent body, s') \<Rightarrow>
          w\<lparr>service := s', in_flight := in_flight w @ [body], requests := requests w @ [body]\<rparr>
      | (_, s') \<Rightarrow> w\<lparr>service := s'\<rparr>)"
| "step (PutSettled outcome) w =
     (case in_flight w of
        [] \<Rightarrow> w
      | body # rest \<Rightarrow>
          w\<lparr>service := snd (processPendingOperations_finish outcome (service w)),
            in_flight := rest,
            stored := (if put_succeeded outcome then Some body else stored w)\<rparr>)"
| "step (Loaded now response) w = w\<lparr>service := snd (loadObjects now response (service w))\<rparr>"

definition run :: "event list \<Rightarrow> system \<Rightarrow> system" where
  "run events w = fold step events w"

text \<open>The system when the module has been imported and the bin holds \<open>d\<close>.\<close>

definition initial_system :: "StorageData option \<Rightarrow> system" where
  "initial_system d = \<lparr>service = initial_service, in_flight = [], requests = [], stored = d\<rparr>"

text \<open>One round of the write path: some closures are queued, then a flush is
  requested and its \<open>PUT\<close> settles before anything else happens.\<close>

fun flush_round :: "string \<times> operation list \<times> put_outcome \<Rightarrow> event list" where
  "flush_round (now, ops, outcome) = map Queued ops @ [FlushRequested now, PutSettled outcome]"

text \<open>Mutual exclusion of flushes: at most one \<open>PUT\<close> awaits its answer, and
  \<open>isProcessing\<close> is set exactly while one does.\<close>

definition flush_exclusive :: "system \<Rightarrow> bool" where
  "flush_exclusive w =
     (length (in_flight w) \<le> 1 \<and> isProcessing (service w) = (in_flight w \<noteq> []))"

text \<open>The cache is present and its \<open>objects\<close> value is an array.\<close>

definition holds_array :: "StorageService \<Rightarrow> bool" where
  "holds_array s =
     (case cache s of
        None \<Rightarrow> False
      | Some c \<Rightarrow> (case objects c of ItemArray objs \<Rightarrow> True | _ \<Rightarrow> False))"

text \<open>The service is at rest with an array in its cache, nothing queued and nothing
  in flight, and both \<open>lastVersion\<close> and the version of the document in the bin are
  \<open>n\<close>.\<close>

definition idle_at_version :: "int \<Rightarrow> system \<Rightarrow> bool" where
  "idle_at_version n w =
     (holds_array (service w) \<and> \<not> isProcessing (service w)
      \<and> pendingOperations (service w) = [] \<and> in_flight w = []
      \<and> lastVersion (service w) = n \<and> map_option version (stored w) = Some n)"

text \<open>
  Runs in which the version bookkeeping cannot be disturbed from outside: a load
  completes only while no \<open>PUT\<close> is under way, and a load that delivers a document
  delivers the version the bin holds.
\<close>

fun allowed :: "event \<Rightarrow> system \<Rightarrow> bool" where
  "allowed (Loaded now response) w =
     (in_flight w = []
      \<and> (case fetched_document now response of
            None \<Rightarrow> True
          | Some d \<Rightarrow> map_option version (stored w) = Some (version d)))"
| "allowed (Queued operation) w = True"
| "allowed (FlushRequested now) w = True"
| "allowed (PutSettled outcome) w = True"

fun admissible :: "event list \<Rightarrow> system \<Rightarrow> bool" where
  "admissible [] w = True"
| "admissible (e # events) w = (allowed e w \<and> admissible events (step e w))"

text \<open>The number of successful flushes of a run: the \<open>PUT\<close> answers with \<open>ok\<close> that
  reach a request in flight.\<close>

fun succeeds :: "event \<Rightarrow> system \<Rightarrow> bool" where
  "succeeds (PutSettled outcome) w = (in_flight w \<noteq> [] \<and> put_succeeded outcome)"
| "succeeds (Queued operation) w = False"
| "succeeds (FlushRequested now) w = False"
| "succeeds (Loaded now response) w = False"

fun successes :: "event list \<Rightarrow> system \<Rightarrow> nat" where
  "successes [] w = 0"
| "successes (e # events) w =
     (if succeeds e w then 1 else 0) + successes events (step e w)"

text \<open>
  The bookkeeping at version \<open>n\<close>: \<open>lastVersion\<close> and the bin agree on \<open>n\<close>; either
  nothing is in flight and the flag is clear, or one \<open>PUT\<close> is in flight, the flag is
  set, and the request and the cache both carry the incremented version.
\<close>

definition in_step :: "int \<Rightarrow> system \<Rightarrow> bool" where
  "in_step n w =
     (lastVersion (service w) = n \<and> map_option version (stored w) = Some n
      \<and> (case in_flight w of
            [] \<Rightarrow> \<not> isProcessing (service w)
          | body # rest \<Rightarrow>
              rest = [] \<and> isProcessing (service w) \<and> version body = js_increment n
              \<and> map_option version (cache (service w)) = Some (js_increment n)))"

section \<open>Explicit reset\<close>

text \<open>
  Modelled from the spec: \<open>resetObjects\<close>. The handler \<open>handleCustomObject\<close> calls
  \<open>storageService.resetObjects()\<close>, but the class \<open>StorageService\<close> at hand defines no
  such method. The spec (section 4.5) says that it clears the remote document by
  reinitialising it to the empty-document shape, bypassing the operation queue and
  the flush debounce and acting immediately. So it sends a \<open>PUT\<close> of
  \<open>{objects: [], lastUpdated: now, version: 1}\<close> at once and leaves the fields of the
  service alone; the bin takes the document when the \<open>PUT\<close> succeeds.
\<close>

definition resetObjects :: "string \<Rightarrow> put_outcome \<Rightarrow> system \<Rightarrow> system" where
  "resetObjects now outcome w =
     w\<lparr>requests := requests w @ [empty_document now],
       stored := (if put_succeeded outcome then Some (empty_document now) else stored w)\<rparr>"

text \<open>
  \<open>handleCustomObject\<close> of the table component. \<open>trim\<close> stands for \<open>String.trim\<close> and
  \<open>isEmoji\<close> for the test \<open>isSingleChar || /[\p{Emoji}...]/u.test(trimmed)\<close>; \<open>view\<close> is
  the component's \<open>objects\<close> state, which \<open>setObjects([])\<close> empties. The result \<open>None\<close>
  is the returned \<open>null\<close>.
\<close>

record custom_object =
  custom_type :: string
  custom_emoji :: string
  custom_color :: string
  custom_isText :: bool

definition handleCustomObject ::
  "(string \<Rightarrow> string) \<Rightarrow> (string \<Rightarrow> bool) \<Rightarrow> string \<Rightarrow> put_outcome \<Rightarrow> string
     \<Rightarrow> 'v list \<Rightarrow> system \<Rightarrow> custom_object option \<times> 'v list \<times> system" where
  "handleCustomObject trim isEmoji now outcome input view w =
     (let trimmed = trim input in
      if trimmed = ''__reset'' then (None, [], resetObjects now outcome w)
      else
        (Some \<lparr>custom_type = (if isEmoji trimmed then ''custom-emoji'' else ''paper''),
               custom_emoji = trimmed,
               custom_color = (if isEmoji trimmed then ''bg-purple-600'' else ''bg-white''),
               custom_isText = (\<not> isEmoji trimmed)\<rparr>,
         view, w))"

text \<open>An item for the concrete instances below: a cup with the given id and position.\<close>

definition example_item :: "string \<Rightarrow> real \<Rightarrow> real \<Rightarrow> StoredObject" where
  "example_item i x y =
     \<lparr>obj_id = i, obj_name = ''cup'', obj_x = x, obj_y = y, obj_type = ''cup'',
      obj_emoji = ''cup'', obj_color = ''bg-amber-600'', obj_isText = None\<rparr>"

text \<open>Whether an operation sets the position of items with the given id: an add of
  an item with that id, or an update of that id.\<close>

fun positions :: "string \<Rightarrow> operation \<Rightarrow> bool" where
  "positions i (AddOp object) = (obj_id object = i)"
| "positions i (UpdateOp objectId x y) = (objectId = i)"
| "positions i (RemoveOp objectId) = False"

section \<open>Auxiliary facts\<close>

lemma js_increment_exact:
  "- (2 ^ 53) \<le> v + 1 \<Longrightarrow> v + 1 \<le> 2 ^ 53 \<Longrightarrow> js_increment v = v + 1"
proof -
  assume "- (2 ^ 53) \<le> v + 1" and "v + 1 \<le> 2 ^ 53"
  then have "\<bar>v + 1\<bar> \<le> 2 ^ 53" by simp
  then have "nat \<bar>v + 1\<bar> \<le> 2 ^ 53" by (simp add: nat_le_iff)
  then show ?thesis by (simp add: js_increment_def double_of_int_def)
qed

lemma forEach_on_array:
  "cache s = Some c \<Longrightarrow> objects c = ItemArray objs \<Longrightarrow>
   forEach_operation ops s =
     (True, s\<lparr>cache := Some (c\<lparr>objects := ItemArray (fold apply_operation ops objs)\<rparr>)\<rparr>)"
proof (induction ops arbitrary: s c objs)
  case Nil
  then show ?case by simp
next
  case (Cons operation ops)
  let ?c = "c\<lparr>objects := ItemArray (apply_operation operation objs)\<rparr>"
  let ?s = "s\<lparr>cache := Some ?c\<rparr>"
  have first: "run_operation operation s = Some ?s"
    using Cons.prems by (simp add: run_operation_def)
  have "cache ?s = Some ?c" and "objects ?c = ItemArray (apply_operation operation objs)"
    by simp_all
  from Cons.IH [OF this] show ?case
    using first by simp
qed

lemma forEach_on_other:
  "cache s = Some c \<Longrightarrow> \<not> holds_array s \<Longrightarrow> ops \<noteq> [] \<Longrightarrow>
   forEach_operation ops s = (False, s)"
  by (cases ops) (auto simp: run_operation_def holds_array_def split: objects_value.splits)

lemma fold_queueOperation:
  "fold queueOperation ops s = s\<lparr>pendingOperations := pendingOperations s @ ops\<rparr>"
  by (induction ops arbitrary: s) (simp_all add: queueOperation_def)

lemma start_stops_at_guard:
  "isProcessing s \<or> pendingOperations s = [] \<or> cache s = None \<Longrightarrow>
   processPendingOperations_start now s = (NotStarted, s)"
  by (simp add: processPendingOperations_start_def)

lemma start_passes_guard:
  assumes "cache s = Some c" and "objects c = ItemArray objs"
    and "\<not> isProcessing s" and "pendingOperations s \<noteq> []"
  shows "processPendingOperations_start now s =
           (Sent (c\<lparr>objects := ItemArray (fold apply_operation (pendingOperations s) objs),
                    version := js_increment (lastVersion s), lastUpdated := now\<rparr>),
            s\<lparr>cache := Some (c\<lparr>objects := ItemArray (fold apply_operation (pendingOperations s) objs),
                              version := js_increment (lastVersion s), lastUpdated := now\<rparr>),
              pendingOperations := [], isProcessing := True\<rparr>)"
proof -
  have "forEach_operation (pendingOperations s) (s\<lparr>isProcessing := True\<rparr>) =
        (True, s\<lparr>isProcessing := True,
          cache := Some (c\<lparr>objects := ItemArray (fold apply_operation (pendingOperations s) objs)\<rparr>)\<rparr>)"
    using forEach_on_array [of "s\<lparr>isProcessing := True\<rparr>" c objs "pendingOperations s"] assms(1,2)
    by simp
  then show ?thesis
    using assms by (simp add: processPendingOperations_start_def Let_def)
qed

lemma start_throws:
  assumes "cache s = Some c" and "\<not> holds_array s"
    and "\<not> isProcessing s" and "pendingOperations s \<noteq> []"
  shows "processPendingOperations_start now s = (Threw, s\<lparr>pendingOperations := []\<rparr>)"
proof -
  have "\<not> holds_array (s\<lparr>isProcessing := True\<rparr>)"
    using assms(2) by (simp add: holds_array_def)
  then have "forEach_operation (pendingOperations s) (s\<lparr>isProcessing := True\<rparr>) =
        (False, s\<lparr>isProcessing := True\<rparr>)"
    using forEach_on_other [of "s\<lparr>isProcessing := True\<rparr>" c "pendingOperations s"] assms(1,4)
    by simp
  then show ?thesis
    using assms by (simp add: processPendingOperations_start_def Let_def)
qed

lemma holds_arrayE:
  "holds_array s \<Longrightarrow> \<exists>c objs. cache s = Some c \<and> objects c = ItemArray objs"
  by (auto simp: holds_array_def split: option.splits objects_value.splits)

text \<open>The three ways the first part of a flush can end.\<close>

lemma start_cases:
  obtains (guard) "isProcessing s \<or> pendingOperations s = [] \<or> cache s = None"
      "processPendingOperations_start now s = (NotStarted, s)"
  | (threw) "\<not> isProcessing s" "pendingOperations s \<noteq> []" "cache s \<noteq> None" "\<not> holds_array s"
      "processPendingOperations_start now s = (Threw, s\<lparr>pendingOperations := []\<rparr>)"
  | (sent) c objs where "\<not> isProcessing s" "pendingOperations s \<noteq> []" "cache s = Some c"
      "objects c = ItemArray objs"
      "processPendingOperations_start now s =
           (Sent (c\<lparr>objects := ItemArray (fold apply_operation (pendingOperations s) objs),
                    version := js_increment (lastVersion s), lastUpdated := now\<rparr>),
            s\<lparr>cache := Some (c\<lparr>objects := ItemArray (fold apply_operation (pendingOperations s) objs),
                              version := js_increment (lastVersion s), lastUpdated := now\<rparr>),
              pendingOperations := [], isProcessing := True\<rparr>)"
proof (cases "isProcessing s \<or> pendingOperations s = [] \<or> cache s = None")
  case True
  then show ?thesis using guard start_stops_at_guard by blast
next
  case False
  then obtain c where c: "cache s = Some c" by auto
  show ?thesis
  proof (cases "holds_array s")
    case True
    then obtain c' objs where "cache s = Some c'" "objects c' = ItemArray objs"
      using holds_arrayE by blast
    with False show ?thesis
      using sent [of c' objs] start_passes_guard [of s c' objs now] by simp
  next
    case no_array: False
    with False c show ?thesis
      using threw start_throws [of s c now] by simp
  qed
qed

lemma merge_fold:
  "fold (merge_step serverObjects) localObjects mergedObjects =
   mergedObjects @ filter (\<lambda>localObj. obj_id localObj \<notin> obj_id ` set serverObjects) localObjects"
proof (induction localObjects arbitrary: mergedObjects)
  case Nil
  then show ?case by simp
next
  case (Cons localObj localObjects)
  have "(find (\<lambda>serverObj. obj_id serverObj = obj_id localObj) serverObjects = None)
        = (obj_id localObj \<notin> obj_id ` set serverObjects)"
    by (auto simp: find_None_iff image_iff)
  then show ?case
    using Cons.IH by (simp add: merge_step_def)
qed

lemma document_objects_truthy: "truthy (objects (document_of_record now record))"
  by (simp add: document_of_record_def split: option.split)

lemma update_sets_coordinates:
  "list_all (\<lambda>obj. obj_id obj = objectId \<longrightarrow> obj_x obj = x \<and> obj_y obj = y)
     (apply_operation (UpdateOp objectId x y) objs)"
  by (induction objs) simp_all

lemma start_after_queueing:
  assumes "cache s = Some c" and "objects c = ItemArray objs"
    and "\<not> isProcessing s" and "pendingOperations s = []" and "ops \<noteq> []"
  shows "processPendingOperations_start now (fold queueOperation ops s) =
      (Sent (c\<lparr>objects := ItemArray (fold apply_operation ops objs),
                version := js_increment (lastVersion s), lastUpdated := now\<rparr>),
       s\<lparr>cache := Some (c\<lparr>objects := ItemArray (fold apply_operation ops objs),
                              version := js_increment (lastVersion s), lastUpdated := now\<rparr>),
          pendingOperations := [], isProcessing := True\<rparr>)"
proof -
  let ?s = "s\<lparr>pendingOperations := ops\<rparr>"
  have q: "fold queueOperation ops s = ?s"
    using assms(4) by (simp add: fold_queueOperation)
  have "cache ?s = Some c" "objects c = ItemArray objs" "\<not> isProcessing ?s"
    "pendingOperations ?s \<noteq> []"
    using assms by simp_all
  from start_passes_guard [OF this, of now] show ?thesis
    unfolding q by simp
qed

lemma step_exclusive: "flush_exclusive w \<Longrightarrow> flush_exclusive (step e w)"
proof (cases e)
  case (Queued operation)
  assume "flush_exclusive w"
  then show ?thesis
    using Queued by (simp add: flush_exclusive_def queueOperation_def)
next
  case (FlushRequested now)
  assume inv: "flush_exclusive w"
  show ?thesis
  proof (cases rule: start_cases [of "service w" now])
    case guard
    then show ?thesis
      using inv FlushRequested by (simp add: flush_exclusive_def)
  next
    case threw
    then show ?thesis
      using inv FlushRequested by (simp add: flush_exclusive_def)
  next
    case (sent c objs)
    then show ?thesis
      using inv FlushRequested by (simp add: flush_exclusive_def)
  qed
next
  case (PutSettled outcome)
  assume inv: "flush_exclusive w"
  show ?thesis
  proof (cases "in_flight w")
    case Nil
    then show ?thesis using inv PutSettled by simp
  next
    case (Cons body rest)
    with inv have "rest = []" by (simp add: flush_exclusive_def)
    with Cons show ?thesis
      using PutSettled
      by (simp add: flush_exclusive_def processPendingOperations_finish_def
          split: option.split)
  qed
next
  case (Loaded now response)
  assume "flush_exclusive w"
  then show ?thesis
    using Loaded by (simp add: flush_exclusive_def loadObjects_def split: option.split)
qed

lemma run_exclusive: "flush_exclusive w \<Longrightarrow> flush_exclusive (run events w)"
  unfolding run_def by (induction events arbitrary: w) (simp_all add: step_exclusive)

lemma run_append: "run (xs @ ys) w = run ys (run xs w)"
  by (simp add: run_def)

lemma run_Cons: "run (e # events) w = run events (step e w)"
  by (simp add: run_def)

lemma run_queued:
  "run (map Queued ops) w = w\<lparr>service := fold queueOperation ops (service w)\<rparr>"
  unfolding run_def by (induction ops arbitrary: w) simp_all

lemma run_flush_round:
  assumes "idle_at_version n w" and "ops \<noteq> []"
    and "put_succeeded outcome \<Longrightarrow> 0 \<le> n \<and> n < 2 ^ 53"
  shows "idle_at_version (if put_succeeded outcome then n + 1 else n)
           (run (flush_round (now, ops, outcome)) w)"
proof -
  from assms(1) have "holds_array (service w)"
    by (simp add: idle_at_version_def)
  from holds_arrayE [OF this]
  obtain c objs where c: "cache (service w) = Some c" "objects c = ItemArray objs"
    by blast
  from assms(1) have idle: "\<not> isProcessing (service w)" "pendingOperations (service w) = []"
    "in_flight w = []" "lastVersion (service w) = n" "map_option version (stored w) = Some n"
    by (simp_all add: idle_at_version_def)
  note started = start_after_queueing [OF c idle(1) idle(2) assms(2), of now]
  have exact: "put_succeeded outcome \<Longrightarrow> js_increment n = n + 1"
    using assms(3) by (simp add: js_increment_exact)
  have "run (flush_round (now, ops, outcome)) w =
        step (PutSettled outcome) (step (FlushRequested now) (run (map Queued ops) w))"
    by (simp add: run_def)
  then show ?thesis
    using idle exact
    by (simp add: run_queued started processPendingOperations_finish_def idle_at_version_def
        holds_array_def)
qed

lemma run_flush_rounds:
  assumes "idle_at_version n w" and "\<forall>round \<in> set rounds. fst (snd round) \<noteq> []"
    and "0 \<le> n"
    and "n + int (length (filter (\<lambda>round. put_succeeded (snd (snd round))) rounds)) \<le> 2 ^ 53"
  shows "idle_at_version
           (n + int (length (filter (\<lambda>round. put_succeeded (snd (snd round))) rounds)))
           (run (concat (map flush_round rounds)) w)"
  using assms
proof (induction rounds arbitrary: n w)
  case Nil
  then show ?case by (simp add: run_def)
next
  case (Cons round rounds)
  obtain now ops outcome where round: "round = (now, ops, outcome)"
    by (cases round) auto
  let ?n = "if put_succeeded outcome then n + 1 else n"
  from Cons.prems(2) round have ne: "ops \<noteq> []" by simp
  have bd: "put_succeeded outcome \<Longrightarrow> 0 \<le> n \<and> n < 2 ^ 53"
    using Cons.prems(3,4) round by simp
  from run_flush_round [OF Cons.prems(1) ne bd, where now = now]
  have first: "idle_at_version ?n (run (flush_round round) w)"
    unfolding round .
  from Cons.prems(2) have rest: "\<forall>round \<in> set rounds. fst (snd round) \<noteq> []" by simp
  have split: "run (concat (map flush_round (round # rounds))) w =
               run (concat (map flush_round rounds)) (run (flush_round round) w)"
    by (simp only: list.map concat.simps run_append)
  have count:
    "n + int (length (filter (\<lambda>round. put_succeeded (snd (snd round))) (round # rounds))) =
     ?n + int (length (filter (\<lambda>round. put_succeeded (snd (snd round))) rounds))"
    by (simp add: round)
  have nonneg: "0 \<le> ?n" using Cons.prems(3) by simp
  have bound: "?n + int (length (filter (\<lambda>round. put_succeeded (snd (snd round))) rounds))
                 \<le> 2 ^ 53"
    using Cons.prems(4) unfolding count .
  from Cons.IH [OF first rest nonneg bound] show ?case
    unfolding split count .
qed

lemma step_in_step:
  assumes "in_step n w" and "allowed e w"
    and "succeeds e w \<Longrightarrow> 0 \<le> n \<and> n < 2 ^ 53"
  shows "in_step (if succeeds e w then n + 1 else n) (step e w)"
proof (cases e)
  case (Queued operation)
  then show ?thesis
    using assms(1) by (simp add: in_step_def queueOperation_def split: list.splits)
next
  case (FlushRequested now)
  show ?thesis
  proof (cases rule: start_cases [of "service w" now])
    case guard
    then show ?thesis
      using assms(1) FlushRequested by simp
  next
    case threw
    then show ?thesis
      using assms(1) FlushRequested by (simp add: in_step_def split: list.splits)
  next
    case (sent c objs)
    then show ?thesis
      using assms(1) FlushRequested by (simp add: in_step_def split: list.splits)
  qed
next
  case (PutSettled outcome)
  show ?thesis
  proof (cases "in_flight w")
    case Nil
    then show ?thesis using assms(1) PutSettled by simp
  next
    case (Cons body rest)
    with assms(1) have flight: "rest = []" "isProcessing (service w)"
      "version body = js_increment n"
      "map_option version (cache (service w)) = Some (js_increment n)"
      "lastVersion (service w) = n" "map_option version (stored w) = Some n"
      by (simp_all add: in_step_def)
    then obtain c where c: "cache (service w) = Some c" "version c = js_increment n"
      by auto
    show ?thesis
    proof (cases "put_succeeded outcome")
      case True
      then have "succeeds e w" using PutSettled Cons by simp
      then have "js_increment n = n + 1"
        using assms(3) by (simp add: js_increment_exact)
      then show ?thesis
        using True PutSettled Cons flight c
        by (simp add: in_step_def processPendingOperations_finish_def)
    next
      case False
      then show ?thesis
        using PutSettled Cons flight c
        by (simp add: in_step_def processPendingOperations_finish_def)
    qed
  qed
next
  case (Loaded now response)
  from assms(2) Loaded have idle: "in_flight w = []" by simp
  show ?thesis
  proof (cases "fetched_document now response")
    case None
    then show ?thesis
      using assms(1) Loaded idle by (simp add: in_step_def loadObjects_def)
  next
    case (Some d)
    with assms(2) Loaded have "map_option version (stored w) = Some (version d)" by simp
    with assms(1) have "version d = n" by (simp add: in_step_def)
    then show ?thesis
      using assms(1) Loaded idle Some by (simp add: in_step_def loadObjects_def)
  qed
qed

lemma run_in_step:
  assumes "in_step n w" and "admissible events w" and "0 \<le> n"
    and "n + int (successes events w) \<le> 2 ^ 53"
  shows "in_step (n + int (successes events w)) (run events w)"
  using assms
proof (induction events arbitrary: n w)
  case Nil
  then show ?case by (simp add: run_def)
next
  case (Cons e events)
  let ?n = "if succeeds e w then n + 1 else n"
  have allowed: "allowed e w" and rest: "admissible events (step e w)"
    using Cons.prems(2) by simp_all
  have count: "n + int (successes (e # events) w) = ?n + int (successes events (step e w))"
    by simp
  have "succeeds e w \<Longrightarrow> 0 \<le> n \<and> n < 2 ^ 53"
    using Cons.prems(3,4) by simp
  from step_in_step [OF Cons.prems(1) allowed this]
  have first: "in_step ?n (step e w)" .
  have nonneg: "0 \<le> ?n" using Cons.prems(3) by simp
  have bound: "?n + int (successes events (step e w)) \<le> 2 ^ 53"
    using Cons.prems(4) unfolding count .
  from Cons.IH [OF first rest nonneg bound] show ?case
    unfolding count run_Cons .
qed

lemma apply_keeps_position:
  assumes "\<not> positions i operation"
    and "list_all (\<lambda>obj. obj_id obj = i \<longrightarrow> obj_x obj = x \<and> obj_y obj = y) objs"
  shows "list_all (\<lambda>obj. obj_id obj = i \<longrightarrow> obj_x obj = x \<and> obj_y obj = y)
           (apply_operation operation objs)"
proof (cases operation)
  case (AddOp object)
  with assms(1) have "obj_id object \<noteq> i" by simp
  with assms(2) show ?thesis
    unfolding AddOp by (induction objs) simp_all
next
  case (UpdateOp objectId x' y')
  with assms(1) have "objectId \<noteq> i" by simp
  with assms(2) show ?thesis
    unfolding UpdateOp by (induction objs) simp_all
next
  case (RemoveOp objectId)
  from assms(2) show ?thesis
    unfolding RemoveOp by (induction objs) simp_all
qed

lemma fold_keeps_position:
  "list_all (\<lambda>operation. \<not> positions i operation) later \<Longrightarrow>
   list_all (\<lambda>obj. obj_id obj = i \<longrightarrow> obj_x obj = x \<and> obj_y obj = y) objs \<Longrightarrow>
   list_all (\<lambda>obj. obj_id obj = i \<longrightarrow> obj_x obj = x \<and> obj_y obj = y)
     (fold apply_operation later objs)"
proof (induction later arbitrary: objs)
  case Nil
  then show ?case by simp
next
  case (Cons operation later)
  from Cons.prems(1) have first: "\<not> positions i operation"
    and rest: "list_all (\<lambda>operation. \<not> positions i operation) later"
    by simp_all
  from Cons.IH [OF rest apply_keeps_position [OF first Cons.prems(2)]]
  show ?case by simp
qed

lemma last_update_wins:
  assumes "list_all (\<lambda>operation. \<not> positions i operation) later"
  shows "list_all (\<lambda>obj. obj_id obj = i \<longrightarrow> obj_x obj = x \<and> obj_y obj = y)
           (fold apply_operation (earlier @ [UpdateOp i x y] @ later) objs)"
proof -
  have "fold apply_operation (earlier @ [UpdateOp i x y] @ later) objs =
        fold apply_operation later
          (apply_operation (UpdateOp i x y) (fold apply_operation earlier objs))"
    by simp
  then show ?thesis
    using fold_keeps_position [OF assms update_sets_coordinates] by (simp only:)
qed

section \<open>Replace-on-add\<close>



section \<open>What a load installs\<close>

text \<open>
  Claim C7, as stated: on every failure of a load, a malformed payload included,
  \<open>loadObjects\<close> installs the empty document and returns the empty list. It fails on a
  payload of the wrong shape: the record \<open>{objects: 5, version: 7}\<close> is installed as it
  is, the number 5 is returned, and \<open>lastVersion\<close> becomes 7.
\<close>

theorem loadObjects_installs_wrong_shape:
  "fst (loadObjects ''now''
     (GetHttp True (BodyRecord \<lparr>r_objects = Some (NumberValue 5), r_lastUpdated = None,
        r_version = Some 7\<rparr>)) initial_service) = NumberValue 5
   \<and> cache (snd (loadObjects ''now''
     (GetHttp True (BodyRecord \<lparr>r_objects = Some (NumberValue 5), r_lastUpdated = None,
        r_version = Some 7\<rparr>)) initial_service))
     = Some \<lparr>objects = NumberValue 5, lastUpdated = ''now'', version = 7\<rparr>
   \<and> lastVersion (snd (loadObjects ''now''
     (GetHttp True (BodyRecord \<lparr>r_objects = Some (NumberValue 5), r_lastUpdated = None,
        r_version = Some 7\<rparr>)) initial_service)) = 7"
  by (simp add: loadObjects_def document_of_record_def)

text \<open>
  Claim C7, amended. When the request is rejected, the status is not 2xx, the body is
  not JSON or the body is \<open>null\<close>, \<open>loadObjects\<close> returns the empty list and installs the
  document \<open>{objects: [], lastUpdated: now, version: 1}\<close> as the cache; no error reaches
  the caller. A body without a record gives the same document and sets \<open>lastVersion\<close>
  to 1. A record that arrives is not validated: the cache becomes the document built
  from it field by field (each field taken when truthy, else \<open>[]\<close>, \<open>now\<close> and 1), its
  \<open>objects\<close> value is returned whatever its shape, and its version becomes
  \<open>lastVersion\<close>. For a record with an array and the two other fields truthy that
  document is the record itself.
\<close>

theorem loadObjects_swallows_failure:
  "loadObjects now GetNetworkError s =
     (ItemArray [], s\<lparr>cache := Some \<lparr>objects = ItemArray [], lastUpdated = now, version = 1\<rparr>\<rparr>)
   \<and> loadObjects now (GetHttp False body) s =
     (ItemArray [], s\<lparr>cache := Some \<lparr>objects = ItemArray [], lastUpdated = now, version = 1\<rparr>\<rparr>)
   \<and> loadObjects now (GetHttp True BodyNotJson) s =
     (ItemArray [], s\<lparr>cache := Some \<lparr>objects = ItemArray [], lastUpdated = now, version = 1\<rparr>\<rparr>)
   \<and> loadObjects now (GetHttp True BodyNull) s =
     (ItemArray [], s\<lparr>cache := Some \<lparr>objects = ItemArray [], lastUpdated = now, version = 1\<rparr>\<rparr>)
   \<and> loadObjects now (GetHttp True BodyNoRecord) s =
     (ItemArray [], s\<lparr>cache := Some \<lparr>objects = ItemArray [], lastUpdated = now, version = 1\<rparr>,
                     lastVersion := 1\<rparr>)
   \<and> loadObjects now (GetHttp True (BodyRecord record)) s =
     (objects (document_of_record now record),
      s\<lparr>cache := Some (document_of_record now record),
        lastVersion := version (document_of_record now record)\<rparr>)
   \<and> document_of_record now record =
       \<lparr>objects = (case r_objects record of
                     None \<Rightarrow> ItemArray []
                   | Some value \<Rightarrow> if truthy value then value else ItemArray []),
        lastUpdated = (case r_lastUpdated record of
                         None \<Rightarrow> now
                       | Some t \<Rightarrow> if t = [] then now else t),
        version = (case r_version record of
                     None \<Rightarrow> 1
                   | Some v \<Rightarrow> if v = 0 then 1 else v)\<rparr>
   \<and> (t \<noteq> [] \<and> v \<noteq> 0 \<longrightarrow>
        document_of_record now
          \<lparr>r_objects = Some (ItemArray objs), r_lastUpdated = Some t, r_version = Some v\<rparr>
          = \<lparr>objects = ItemArray objs, lastUpdated = t, version = v\<rparr>)"
  by (simp add: loadObjects_def empty_document_def document_of_record_def)

theorem loadObjects_swallows_failure_witness:
  "''2025-01-01'' \<noteq> [] \<and> (7::int) \<noteq> 0
   \<and> loadObjects ''now'' (GetHttp False BodyNull) initial_service =
       (ItemArray [],
        initial_service\<lparr>cache := Some \<lparr>objects = ItemArray [], lastUpdated = ''now'',
                                         version = 1\<rparr>\<rparr>)
   \<and> loadObjects ''now''
        (GetHttp True (BodyRecord \<lparr>r_objects = Some (ItemArray [example_item ''a'' 1 2]),
           r_lastUpdated = Some ''2025-01-01'', r_version = Some 7\<rparr>)) initial_service =
       (ItemArray [example_item ''a'' 1 2],
        initial_service\<lparr>cache := Some \<lparr>objects = ItemArray [example_item ''a'' 1 2],
                                         lastUpdated = ''2025-01-01'', version = 7\<rparr>,
                        lastVersion := 7\<rparr>)"
proof -
  let ?fetched = "\<lparr>r_objects = Some (ItemArray [example_item ''a'' 1 2]),
        r_lastUpdated = Some ''2025-01-01'', r_version = Some 7\<rparr>"
  note fact = loadObjects_swallows_failure [of "''now''" initial_service BodyNull ?fetched
      "''2025-01-01''" 7 "[example_item ''a'' 1 2]"]
  have pre: "''2025-01-01'' \<noteq> [] \<and> (7::int) \<noteq> 0" by simp
  from fact have failed: "loadObjects ''now'' (GetHttp False BodyNull) initial_service =
       (ItemArray [],
        initial_service\<lparr>cache := Some \<lparr>objects = ItemArray [], lastUpdated = ''now'',
                                         version = 1\<rparr>\<rparr>)"
    by blast
  from fact have loaded: "loadObjects ''now'' (GetHttp True (BodyRecord ?fetched)) initial_service =
     (objects (document_of_record ''now'' ?fetched),
      initial_service\<lparr>cache := Some (document_of_record ''now'' ?fetched),
        lastVersion := version (document_of_record ''now'' ?fetched)\<rparr>)"
    by blast
  from fact pre have doc: "document_of_record ''now'' ?fetched =
      \<lparr>objects = ItemArray [example_item ''a'' 1 2], lastUpdated = ''2025-01-01'', version = 7\<rparr>"
    by blast
  from pre failed loaded show ?thesis
    unfolding doc by simp
qed

section \<open>Pull and merge: the returned list\<close>

text \<open>
  Claim C1. When the load delivers a record whose \<open>objects\<close> value is an array,
  \<open>syncObjects\<close> returns the loaded server objects, as the server has them, followed by
  exactly the local objects whose id no server object has, unchanged and in their
  local order. When the load fails (or the body has no record, or the record has no
  \<open>objects\<close>), it returns the local list unchanged. For every record the result is
  given by the shape of the installed \<open>objects\<close> value: the merge on an array, the
  local list on a value that cannot be spread or searched, and the characters of a
  string when there is no local object.
\<close>

theorem syncObjects_server_wins_keeps_local_only:
  "fst (syncObjects now
          (GetHttp True (BodyRecord \<lparr>r_objects = Some (ItemArray serverObjects),
             r_lastUpdated = t, r_version = v\<rparr>)) localObjects s) =
     Objects (serverObjects
       @ filter (\<lambda>localObj. obj_id localObj \<notin> obj_id ` set serverObjects) localObjects)
   \<and> fst (syncObjects now
          (GetHttp True (BodyRecord \<lparr>r_objects = None, r_lastUpdated = t, r_version = v\<rparr>))
          localObjects s) = Objects localObjects
   \<and> fst (syncObjects now GetNetworkError localObjects s) = Objects localObjects
   \<and> fst (syncObjects now (GetHttp False body) localObjects s) = Objects localObjects
   \<and> fst (syncObjects now (GetHttp True BodyNotJson) localObjects s) = Objects localObjects
   \<and> fst (syncObjects now (GetHttp True BodyNull) localObjects s) = Objects localObjects
   \<and> fst (syncObjects now (GetHttp True BodyNoRecord) localObjects s) = Objects localObjects
   \<and> fst (syncObjects now (GetHttp True (BodyRecord record)) localObjects s) =
       (case objects (document_of_record now record) of
          ItemArray server \<Rightarrow>
            Objects (server
              @ filter (\<lambda>localObj. obj_id localObj \<notin> obj_id ` set server) localObjects)
        | StringValue text \<Rightarrow>
            if localObjects = [] then Characters text else Objects localObjects
        | _ \<Rightarrow> Objects localObjects)"
  by (simp add: syncObjects_def loadObjects_def merge_fold document_of_record_def
      split: objects_value.split option.split)

theorem syncObjects_server_wins_keeps_local_only_witness:
  "fst (syncObjects ''now''
         (GetHttp True (BodyRecord \<lparr>r_objects = Some (ItemArray [example_item ''1'' 0 0]),
            r_lastUpdated = Some ''then'', r_version = Some 3\<rparr>))
         [example_item ''1'' 9 0, example_item ''2'' 4 4] initial_service)
     = Objects [example_item ''1'' 0 0, example_item ''2'' 4 4]
   \<and> fst (syncObjects ''now'' GetNetworkError
         [example_item ''1'' 9 0, example_item ''2'' 4 4] initial_service)
     = Objects [example_item ''1'' 9 0, example_item ''2'' 4 4]"
proof -
  note fact = syncObjects_server_wins_keeps_local_only [of "''now''" "[example_item ''1'' 0 0]"
      "Some ''then''" "Some 3" "[example_item ''1'' 9 0, example_item ''2'' 4 4]"
      initial_service]
  from fact have merged: "fst (syncObjects ''now''
         (GetHttp True (BodyRecord \<lparr>r_objects = Some (ItemArray [example_item ''1'' 0 0]),
            r_lastUpdated = Some ''then'', r_version = Some 3\<rparr>))
         [example_item ''1'' 9 0, example_item ''2'' 4 4] initial_service)
     = Objects ([example_item ''1'' 0 0]
         @ filter (\<lambda>localObj. obj_id localObj \<notin> obj_id ` set [example_item ''1'' 0 0])
             [example_item ''1'' 9 0, example_item ''2'' 4 4])"
    by blast
  from fact have failed: "fst (syncObjects ''now'' GetNetworkError
         [example_item ''1'' 9 0, example_item ''2'' 4 4] initial_service)
     = Objects [example_item ''1'' 9 0, example_item ''2'' 4 4]"
    by blast
  from merged failed show ?thesis
    by (simp add: example_item_def)
qed

section \<open>Pull and merge: the cache\<close>

text \<open>
  Claim C10. \<open>syncObjects\<close> changes the service exactly as the load alone does: after a
  sync that received a record the cache is the loaded server document, and
  \<open>getCurrentObjects\<close> returns the server's \<open>objects\<close> value. When that value is an
  array, the returned list is that array followed by the local-only objects, which
  are not in the cache, so the cached list can be strictly smaller than the returned
  one.
\<close>

theorem syncObjects_caches_server_document_only:
  "snd (syncObjects now response localObjects s) = snd (loadObjects now response s)
   \<and> cache (snd (syncObjects now (GetHttp True (BodyRecord record)) localObjects s))
       = Some (document_of_record now record)
   \<and> getCurrentObjects (snd (syncObjects now (GetHttp True (BodyRecord record)) localObjects s))
       = objects (document_of_record now record)
   \<and> (getCurrentObjects (snd (syncObjects now (GetHttp True (BodyRecord record)) localObjects s))
         = ItemArray serverObjects \<longrightarrow>
       fst (syncObjects now (GetHttp True (BodyRecord record)) localObjects s)
         = Objects (serverObjects
             @ filter (\<lambda>localObj. obj_id localObj \<notin> obj_id ` set serverObjects) localObjects))
   \<and> (\<exists>response' localObjects' s' cached returned.
         getCurrentObjects (snd (syncObjects now response' localObjects' s')) = ItemArray cached
         \<and> fst (syncObjects now response' localObjects' s') = Objects returned
         \<and> set cached \<subset> set returned)"
proof -
  have 1: "snd (syncObjects now response localObjects s) = snd (loadObjects now response s)"
    for response
    by (simp add: syncObjects_def split: prod.split objects_value.split)
  have loaded: "loadObjects now (GetHttp True (BodyRecord record)) s =
     (objects (document_of_record now record),
      s\<lparr>cache := Some (document_of_record now record),
        lastVersion := version (document_of_record now record)\<rparr>)"
    by (simp add: loadObjects_def)
  have 2: "cache (snd (syncObjects now (GetHttp True (BodyRecord record)) localObjects s))
       = Some (document_of_record now record)"
    unfolding 1 loaded by simp
  have 3: "getCurrentObjects (snd (syncObjects now (GetHttp True (BodyRecord record)) localObjects s))
       = objects (document_of_record now record)"
    unfolding 1 loaded by (simp add: getCurrentObjects_def document_objects_truthy)
  have 4: "getCurrentObjects (snd (syncObjects now (GetHttp True (BodyRecord record)) localObjects s))
         = ItemArray serverObjects \<longrightarrow>
       fst (syncObjects now (GetHttp True (BodyRecord record)) localObjects s)
         = Objects (serverObjects
             @ filter (\<lambda>localObj. obj_id localObj \<notin> obj_id ` set serverObjects) localObjects)"
    unfolding 3 by (simp add: syncObjects_def loaded merge_fold)
  let ?response = "GetHttp True (BodyRecord \<lparr>r_objects = Some (ItemArray []),
      r_lastUpdated = None, r_version = None\<rparr>)"
  have strict:
    "getCurrentObjects (snd (syncObjects now ?response [example_item ''2'' 4 4] initial_service))
       = ItemArray []
     \<and> fst (syncObjects now ?response [example_item ''2'' 4 4] initial_service)
       = Objects [example_item ''2'' 4 4]
     \<and> set [] \<subset> set [example_item ''2'' 4 4]"
    by (auto simp: syncObjects_def loadObjects_def merge_step_def document_of_record_def
        getCurrentObjects_def)
  then have 5: "\<exists>response' localObjects' s' cached returned.
         getCurrentObjects (snd (syncObjects now response' localObjects' s')) = ItemArray cached
         \<and> fst (syncObjects now response' localObjects' s') = Objects returned
         \<and> set cached \<subset> set returned"
    by blast
  from 1 [of response] 2 3 4 5 show ?thesis by (intro conjI)
qed

theorem syncObjects_caches_server_document_only_witness:
  "getCurrentObjects (snd (syncObjects ''now''
         (GetHttp True (BodyRecord \<lparr>r_objects = Some (ItemArray [example_item ''1'' 0 0]),
            r_lastUpdated = Some ''then'', r_version = Some 3\<rparr>))
         [example_item ''1'' 9 0, example_item ''2'' 4 4] initial_service))
     = ItemArray [example_item ''1'' 0 0]
   \<and> fst (syncObjects ''now''
         (GetHttp True (BodyRecord \<lparr>r_objects = Some (ItemArray [example_item ''1'' 0 0]),
            r_lastUpdated = Some ''then'', r_version = Some 3\<rparr>))
         [example_item ''1'' 9 0, example_item ''2'' 4 4] initial_service)
     = Objects [example_item ''1'' 0 0, example_item ''2'' 4 4]"
proof -
  let ?fetched = "\<lparr>r_objects = Some (ItemArray [example_item ''1'' 0 0]),
                  r_lastUpdated = Some ''then'', r_version = Some 3\<rparr>"
  let ?local = "[example_item ''1'' 9 0, example_item ''2'' 4 4]"
  note fact = syncObjects_caches_server_document_only [of "''now''"
      "GetHttp True (BodyRecord ?fetched)" ?local initial_service ?fetched
      "[example_item ''1'' 0 0]"]
  have served: "objects (document_of_record ''now'' ?fetched) = ItemArray [example_item ''1'' 0 0]"
    by (simp add: document_of_record_def)
  from fact have cached:
    "getCurrentObjects (snd (syncObjects ''now'' (GetHttp True (BodyRecord ?fetched)) ?local
        initial_service)) = ItemArray [example_item ''1'' 0 0]"
    unfolding served by blast
  with fact have returned:
    "fst (syncObjects ''now'' (GetHttp True (BodyRecord ?fetched)) ?local initial_service)
       = Objects ([example_item ''1'' 0 0]
           @ filter (\<lambda>localObj. obj_id localObj \<notin> obj_id ` set [example_item ''1'' 0 0])
               ?local)"
    by blast
  from cached returned show ?thesis
    by (simp add: example_item_def)
qed

section \<open>What \<open>forceSave\<close> returns\<close>

text \<open>
  Claim C3, as stated: \<open>forceSave\<close> returns \<open>true\<close> exactly when a \<open>PUT\<close> was performed and
  succeeded. It fails on a loaded service with an empty queue: the guard of
  \<open>processPendingOperations\<close> returns \<open>true\<close> and no request is sent.
\<close>

theorem forceSave_true_without_put:
  "fst (forceSave ''now'' (PutHttp True)
          (snd (loadObjects ''then'' (GetHttp True BodyNoRecord) initial_service))) = True
   \<and> fst (snd (forceSave ''now'' (PutHttp True)
          (snd (loadObjects ''then'' (GetHttp True BodyNoRecord) initial_service)))) = None"
  by (simp add: forceSave_def processPendingOperations_def processPendingOperations_start_def
      loadObjects_def initial_service_def)

text \<open>
  Claim C3, amended. \<open>forceSave\<close> returns \<open>true\<close> exactly when the call stops at the
  guard (a flush is in flight, the queue is empty or the cache is absent) or a \<open>PUT\<close>
  was performed and succeeded. It is \<open>true\<close> with no \<open>PUT\<close> issued exactly at the guard.
\<close>

theorem forceSave_true_iff_guard_or_put_succeeded:
  "fst (forceSave now outcome s) =
     ((isProcessing s \<or> pendingOperations s = [] \<or> cache s = None)
      \<or> (fst (snd (forceSave now outcome s)) \<noteq> None \<and> put_succeeded outcome))
   \<and> (fst (forceSave now outcome s) \<and> fst (snd (forceSave now outcome s)) = None) =
     (isProcessing s \<or> pendingOperations s = [] \<or> cache s = None)"
proof (cases rule: start_cases [of s now])
  case guard
  then show ?thesis
    by (simp add: forceSave_def processPendingOperations_def)
next
  case threw
  then show ?thesis
    by (simp add: forceSave_def processPendingOperations_def)
next
  case (sent c objs)
  then show ?thesis
    by (simp add: forceSave_def processPendingOperations_def
        processPendingOperations_finish_def)
qed

theorem forceSave_true_iff_guard_or_put_succeeded_witness:
  "fst (forceSave ''now'' (PutHttp True)
          (queueOperation (RemoveOp ''a'')
             (snd (loadObjects ''then''
                (GetHttp True (BodyRecord \<lparr>r_objects = Some (NumberValue 5),
                   r_lastUpdated = None, r_version = None\<rparr>)) initial_service)))) = False
   \<and> fst (forceSave ''now'' PutNetworkError
          (queueOperation (RemoveOp ''a'')
             (snd (loadObjects ''then'' (GetHttp True BodyNoRecord) initial_service)))) = False
   \<and> fst (forceSave ''now'' (PutHttp True)
          (queueOperation (RemoveOp ''a'')
             (snd (loadObjects ''then'' (GetHttp True BodyNoRecord) initial_service)))) = True"
proof -
  let ?odd = "queueOperation (RemoveOp ''a'')
             (snd (loadObjects ''then''
                (GetHttp True (BodyRecord \<lparr>r_objects = Some (NumberValue 5),
                   r_lastUpdated = None, r_version = None\<rparr>)) initial_service))"
  let ?s = "queueOperation (RemoveOp ''a'')
             (snd (loadObjects ''then'' (GetHttp True BodyNoRecord) initial_service))"
  have odd: "\<not> isProcessing ?odd" "pendingOperations ?odd \<noteq> []" "cache ?odd \<noteq> None"
    and s: "\<not> isProcessing ?s" "pendingOperations ?s \<noteq> []" "cache ?s \<noteq> None"
    by (simp_all add: queueOperation_def loadObjects_def initial_service_def)
  have no_put: "fst (snd (forceSave ''now'' (PutHttp True) ?odd)) = None"
    by (simp add: forceSave_def processPendingOperations_def processPendingOperations_start_def
        queueOperation_def loadObjects_def initial_service_def document_of_record_def
        run_operation_def)
  have 1: "fst (forceSave ''now'' (PutHttp True) ?odd) = False"
    using forceSave_true_iff_guard_or_put_succeeded [of "''now''" "PutHttp True" ?odd]
      odd no_put
    by simp
  have 2: "fst (forceSave ''now'' PutNetworkError ?s) = False"
    using forceSave_true_iff_guard_or_put_succeeded [of "''now''" PutNetworkError ?s] s
    by simp
  have put: "fst (snd (forceSave ''now'' (PutHttp True) ?s)) \<noteq> None"
    by (simp add: forceSave_def processPendingOperations_def processPendingOperations_start_def
        queueOperation_def loadObjects_def initial_service_def document_of_record_def
        run_operation_def processPendingOperations_finish_def Let_def)
  have 3: "fst (forceSave ''now'' (PutHttp True) ?s) = True"
    using forceSave_true_iff_guard_or_put_succeeded [of "''now''" "PutHttp True" ?s] s put
    by simp
  from 1 2 3 show ?thesis by (intro conjI)
qed

section \<open>A failed flush\<close>

text \<open>
  Claim C4. When a flush sends its \<open>PUT\<close> and the \<open>PUT\<close> fails, the call returns \<open>false\<close>,
  the pending queue is empty afterwards, and the cache holds the queued operations
  applied to the objects it had before (nothing is rolled back); \<open>lastVersion\<close> is as
  before. The second part of the call empties the queue on failure whatever was
  queued while the request was under way, and does not touch the cache. The same
  holds of every call that sends a \<open>PUT\<close>: the cache stays as it was when the request
  was sent.
\<close>

theorem failed_flush_discards_queue_keeps_cache:
  assumes "cache s = Some c" and "objects c = ItemArray objs"
    and "\<not> isProcessing s" and "pendingOperations s \<noteq> []"
    and "\<not> put_succeeded outcome"
  shows "fst (processPendingOperations now outcome s) = False
    \<and> fst (snd (processPendingOperations now outcome s)) \<noteq> None
    \<and> pendingOperations (snd (snd (processPendingOperations now outcome s))) = []
    \<and> cache (snd (snd (processPendingOperations now outcome s))) =
        Some (c\<lparr>objects := ItemArray (fold apply_operation (pendingOperations s) objs),
                version := js_increment (lastVersion s), lastUpdated := now\<rparr>)
    \<and> lastVersion (snd (snd (processPendingOperations now outcome s))) = lastVersion s
    \<and> \<not> isProcessing (snd (snd (processPendingOperations now outcome s)))
    \<and> processPendingOperations_finish outcome s1 =
        (False, s1\<lparr>pendingOperations := [], isProcessing := False\<rparr>)
    \<and> (processPendingOperations_start now s2 = (Sent body, s3) \<longrightarrow>
        processPendingOperations now outcome s2 =
          (False, Some body, s3\<lparr>pendingOperations := [], isProcessing := False\<rparr>))"
  using assms
  by (simp add: processPendingOperations_def start_passes_guard
      processPendingOperations_finish_def)

theorem failed_flush_discards_queue_keeps_cache_witness:
  "getCurrentObjects (snd (snd (processPendingOperations ''now'' (PutHttp False)
      (queueOperation (AddOp (example_item ''a'' 1 2))
         (snd (loadObjects ''then'' (GetHttp True BodyNoRecord) initial_service))))))
     = ItemArray [example_item ''a'' 1 2]
   \<and> pendingOperations (snd (snd (processPendingOperations ''now'' (PutHttp False)
      (queueOperation (AddOp (example_item ''a'' 1 2))
         (snd (loadObjects ''then'' (GetHttp True BodyNoRecord) initial_service)))))) = []
   \<and> fst (processPendingOperations ''now'' (PutHttp False)
      (queueOperation (AddOp (example_item ''a'' 1 2))
         (snd (loadObjects ''then'' (GetHttp True BodyNoRecord) initial_service)))) = False"
proof -
  let ?s = "queueOperation (AddOp (example_item ''a'' 1 2))
              (snd (loadObjects ''then'' (GetHttp True BodyNoRecord) initial_service))"
  let ?c = "\<lparr>objects = ItemArray [], lastUpdated = ''then'', version = 1\<rparr>"
  have 1: "cache ?s = Some ?c"
    by (simp add: queueOperation_def loadObjects_def document_of_record_def)
  have 0: "objects ?c = ItemArray []"
    by simp
  have 2: "\<not> isProcessing ?s"
    by (simp add: queueOperation_def loadObjects_def initial_service_def)
  have 3: "pendingOperations ?s \<noteq> []"
    by (simp add: queueOperation_def)
  have 4: "\<not> put_succeeded (PutHttp False)"
    by simp
  have 5: "pendingOperations ?s = [AddOp (example_item ''a'' 1 2)]"
    by (simp add: queueOperation_def loadObjects_def initial_service_def)
  show ?thesis
    using failed_flush_discards_queue_keeps_cache [OF 1 0 2 3 4, of "''now''"]
    by (simp add: getCurrentObjects_def 5)
qed

section \<open>One flush carries the whole queue\<close>

text \<open>
  Claim C5, as stated: with the cache present and no flush in flight, the flush
  applies all queued operations and issues one \<open>PUT\<close>, and of repeated updates to
  an id the last one determines the stored position. It fails when the cached
  \<open>objects\<close> value is not an array, as after a load of \<open>{objects: 5}\<close>: the first
  closure throws, nothing is applied, no \<open>PUT\<close> is sent and the queue is dropped. And
  an add of the id queued after the updates replaces the item, so that its position
  is the one of the add.
\<close>

theorem flush_throws_on_wrong_shape:
  "processPendingOperations_start ''t1''
     (queueOperation (RemoveOp ''a'')
        (snd (loadObjects ''t0''
           (GetHttp True (BodyRecord \<lparr>r_objects = Some (NumberValue 5), r_lastUpdated = None,
              r_version = None\<rparr>)) initial_service)))
   = (Threw,
      \<lparr>cache = Some \<lparr>objects = NumberValue 5, lastUpdated = ''t0'', version = 1\<rparr>,
       pendingOperations = [], isProcessing = False, lastVersion = 1\<rparr>)
   \<and> fold apply_operation
       [UpdateOp ''a'' 1 1, UpdateOp ''a'' 2 2, AddOp (example_item ''a'' 9 9)]
       [example_item ''a'' 0 0]
     = [example_item ''a'' 9 9]"
  by (simp add: processPendingOperations_start_def queueOperation_def loadObjects_def
      document_of_record_def initial_service_def run_operation_def example_item_def)

text \<open>
  Claim C5, amended. Let \<open>k\<close> operations be queued, in this order, on a service whose
  cache is present and holds an array of objects, with no flush in flight. The flush
  that runs then applies all of them to the cached array, first queued first,
  empties the queue, sets the version to the increment of \<open>lastVersion\<close> and the
  timestamp, and sends exactly one \<open>PUT\<close> whose body is that whole document. An add
  removes the objects with the id of its item and appends the item, an update sets
  the coordinates of the objects with its id, a remove drops the objects with its
  id. When an update of an id is followed by no other update of that id and no add
  of that id, every object with that id in the document sent has the coordinates of
  that update.
\<close>

theorem flush_applies_queue_in_order:
  assumes "cache s = Some c" and "objects c = ItemArray objs"
    and "\<not> isProcessing s" and "pendingOperations s = []" and "ops \<noteq> []"
  shows "processPendingOperations_start now (fold queueOperation ops s) =
      (Sent (c\<lparr>objects := ItemArray (fold apply_operation ops objs),
                version := js_increment (lastVersion s), lastUpdated := now\<rparr>),
       s\<lparr>cache := Some (c\<lparr>objects := ItemArray (fold apply_operation ops objs),
                           version := js_increment (lastVersion s), lastUpdated := now\<rparr>),
          pendingOperations := [], isProcessing := True\<rparr>)
    \<and> (service w = s \<longrightarrow>
        requests (run (map Queued ops @ [FlushRequested now]) w) =
          requests w @ [c\<lparr>objects := ItemArray (fold apply_operation ops objs),
                           version := js_increment (lastVersion s), lastUpdated := now\<rparr>])
    \<and> fold apply_operation [] items = items
    \<and> fold apply_operation (operation # later) items =
        fold apply_operation later (apply_operation operation items)
    \<and> apply_operation (AddOp object) items =
        filter (\<lambda>obj. obj_id obj \<noteq> obj_id object) items @ [object]
    \<and> apply_operation (UpdateOp objectId x y) items =
        map (\<lambda>obj. if obj_id obj = objectId then obj\<lparr>obj_x := x, obj_y := y\<rparr> else obj) items
    \<and> apply_operation (RemoveOp objectId) items =
        filter (\<lambda>obj. obj_id obj \<noteq> objectId) items
    \<and> (list_all (\<lambda>operation. \<not> positions objectId operation) after \<longrightarrow>
        (\<forall>obj \<in> set (fold apply_operation (before @ [UpdateOp objectId x y] @ after) items).
           obj_id obj = objectId \<longrightarrow> obj_x obj = x \<and> obj_y obj = y))"
proof -
  note started = start_after_queueing [OF assms, of now]
  have 2: "service w = s \<longrightarrow>
        requests (run (map Queued ops @ [FlushRequested now]) w) =
          requests w @ [c\<lparr>objects := ItemArray (fold apply_operation ops objs),
                           version := js_increment (lastVersion s), lastUpdated := now\<rparr>]"
  proof
    assume "service w = s"
    then show "requests (run (map Queued ops @ [FlushRequested now]) w) =
          requests w @ [c\<lparr>objects := ItemArray (fold apply_operation ops objs),
                           version := js_increment (lastVersion s), lastUpdated := now\<rparr>]"
      by (simp add: run_append run_queued run_Cons started) (simp add: run_def)
  qed
  have 3: "fold apply_operation [] items = items"
    and 4: "fold apply_operation (operation # later) items =
        fold apply_operation later (apply_operation operation items)"
    and 5: "apply_operation (AddOp object) items =
        filter (\<lambda>obj. obj_id obj \<noteq> obj_id object) items @ [object]"
    and 6: "apply_operation (UpdateOp objectId x y) items =
        map (\<lambda>obj. if obj_id obj = objectId then obj\<lparr>obj_x := x, obj_y := y\<rparr> else obj) items"
    and 7: "apply_operation (RemoveOp objectId) items =
        filter (\<lambda>obj. obj_id obj \<noteq> objectId) items"
    by simp_all
  have 8: "list_all (\<lambda>operation. \<not> positions objectId operation) after \<longrightarrow>
        (\<forall>obj \<in> set (fold apply_operation (before @ [UpdateOp objectId x y] @ after) items).
           obj_id obj = objectId \<longrightarrow> obj_x obj = x \<and> obj_y obj = y)"
  proof
    assume "list_all (\<lambda>operation. \<not> positions objectId operation) after"
    from last_update_wins [OF this, of x y before items]
    show "\<forall>obj \<in> set (fold apply_operation (before @ [UpdateOp objectId x y] @ after) items).
           obj_id obj = objectId \<longrightarrow> obj_x obj = x \<and> obj_y obj = y"
      unfolding list_all_iff .
  qed
  from started 2 3 4 5 6 7 8 show ?thesis by (intro conjI)
qed

theorem flush_applies_queue_in_order_witness:
  "fst (processPendingOperations_start ''now''
     (fold queueOperation
        [AddOp (example_item ''a'' 1 2), UpdateOp ''a'' 3 4, AddOp (example_item ''b'' 8 8),
         UpdateOp ''a'' 5 6, RemoveOp ''c'', UpdateOp ''b'' 9 9]
        (snd (loadObjects ''then''
           (GetHttp True (BodyRecord \<lparr>r_objects = Some (ItemArray [example_item ''c'' 0 0]),
              r_lastUpdated = Some ''t'', r_version = Some 1\<rparr>)) initial_service))))
   = Sent \<lparr>objects = ItemArray [example_item ''a'' 5 6, example_item ''b'' 9 9],
           lastUpdated = ''now'', version = 2\<rparr>"
proof -
  let ?s = "snd (loadObjects ''then''
           (GetHttp True (BodyRecord \<lparr>r_objects = Some (ItemArray [example_item ''c'' 0 0]),
              r_lastUpdated = Some ''t'', r_version = Some 1\<rparr>)) initial_service)"
  let ?c = "\<lparr>objects = ItemArray [example_item ''c'' 0 0], lastUpdated = ''t'', version = 1\<rparr>"
  let ?ops = "[AddOp (example_item ''a'' 1 2), UpdateOp ''a'' 3 4, AddOp (example_item ''b'' 8 8),
         UpdateOp ''a'' 5 6, RemoveOp ''c'', UpdateOp ''b'' 9 9]"
  have 1: "cache ?s = Some ?c"
    by (simp add: loadObjects_def document_of_record_def)
  have 0: "objects ?c = ItemArray [example_item ''c'' 0 0]"
    by simp
  have 2: "\<not> isProcessing ?s" and 3: "pendingOperations ?s = []"
    and v: "lastVersion ?s = 1"
    by (simp_all add: loadObjects_def initial_service_def document_of_record_def)
  have 4: "?ops \<noteq> []" by simp
  have objs: "fold apply_operation ?ops [example_item ''c'' 0 0]
      = [example_item ''a'' 5 6, example_item ''b'' 9 9]"
    by (simp add: example_item_def)
  have inc: "js_increment 1 = 2"
    by (simp add: js_increment_def double_of_int_def)
  from flush_applies_queue_in_order [OF 1 0 2 3 4, of "''now''"]
  have "processPendingOperations_start ''now'' (fold queueOperation ?ops ?s) =
      (Sent (?c\<lparr>objects := ItemArray (fold apply_operation ?ops [example_item ''c'' 0 0]),
                version := js_increment (lastVersion ?s), lastUpdated := ''now''\<rparr>),
       ?s\<lparr>cache := Some (?c\<lparr>objects := ItemArray (fold apply_operation ?ops [example_item ''c'' 0 0]),
                           version := js_increment (lastVersion ?s), lastUpdated := ''now''\<rparr>),
          pendingOperations := [], isProcessing := True\<rparr>)"
    by (rule conjunct1)
  then show ?thesis
    unfolding objs v inc by simp
qed

section \<open>At most one flush in flight\<close>

text \<open>
  Claim C9. A flush requested while another is in flight, while the queue is empty or
  while the cache is absent changes nothing in the service and sends no \<open>PUT\<close>. When a
  flush sends its \<open>PUT\<close>, a second one requested before the answer arrives (whatever
  has been queued in between) sends none, so two requests in a row issue exactly one
  \<open>PUT\<close>, and never more than one. In every run of the system from its initial state
  at most one \<open>PUT\<close> awaits its answer.
\<close>

theorem at_most_one_flush_in_flight:
  "(isProcessing s \<or> pendingOperations s = [] \<or> cache s = None \<longrightarrow>
      processPendingOperations_start now s = (NotStarted, s))
   \<and> (cache s = Some c \<and> objects c = ItemArray objs \<and> \<not> isProcessing s
        \<and> pendingOperations s \<noteq> [] \<longrightarrow>
        (\<exists>body. fst (processPendingOperations_start now s) = Sent body)
        \<and> processPendingOperations_start now'
            (fold queueOperation ops (snd (processPendingOperations_start now s)))
          = (NotStarted, fold queueOperation ops (snd (processPendingOperations_start now s))))
   \<and> (fst (processPendingOperations_start now s) = Sent sent \<longrightarrow>
        processPendingOperations_start now'
            (fold queueOperation ops (snd (processPendingOperations_start now s)))
          = (NotStarted, fold queueOperation ops (snd (processPendingOperations_start now s))))
   \<and> (cache (service w) = Some c \<and> objects c = ItemArray objs \<and> \<not> isProcessing (service w)
        \<and> pendingOperations (service w) \<noteq> [] \<longrightarrow>
        (\<exists>body. requests (run [FlushRequested now, FlushRequested now'] w)
                   = requests w @ [body]))
   \<and> length (requests (run [FlushRequested now, FlushRequested now'] w))
        \<le> length (requests w) + 1
   \<and> length (in_flight (run events (initial_system d))) \<le> 1"
proof -
  have guard: "isProcessing s \<or> pendingOperations s = [] \<or> cache s = None \<longrightarrow>
      processPendingOperations_start now s = (NotStarted, s)"
    by (simp add: start_stops_at_guard)
  have after_send: "fst (processPendingOperations_start now s) = Sent sent \<longrightarrow>
        processPendingOperations_start now'
            (fold queueOperation ops (snd (processPendingOperations_start now s)))
          = (NotStarted, fold queueOperation ops (snd (processPendingOperations_start now s)))"
    for sent
  proof
    assume sent: "fst (processPendingOperations_start now s) = Sent sent"
    have "isProcessing (snd (processPendingOperations_start now s))"
      using sent by (cases rule: start_cases [of s now]) simp_all
    then have "isProcessing (fold queueOperation ops (snd (processPendingOperations_start now s)))"
      by (simp add: fold_queueOperation)
    then show "processPendingOperations_start now'
            (fold queueOperation ops (snd (processPendingOperations_start now s)))
          = (NotStarted, fold queueOperation ops (snd (processPendingOperations_start now s)))"
      by (simp add: start_stops_at_guard)
  qed
  have twice: "cache s = Some c \<and> objects c = ItemArray objs \<and> \<not> isProcessing s
        \<and> pendingOperations s \<noteq> [] \<longrightarrow>
        (\<exists>body. fst (processPendingOperations_start now s) = Sent body)
        \<and> processPendingOperations_start now'
            (fold queueOperation ops (snd (processPendingOperations_start now s)))
          = (NotStarted, fold queueOperation ops (snd (processPendingOperations_start now s)))"
  proof (intro impI, elim conjE)
    assume a: "cache s = Some c" "objects c = ItemArray objs" "\<not> isProcessing s"
      "pendingOperations s \<noteq> []"
    note started = start_passes_guard [OF a, of now]
    have first: "\<exists>body. fst (processPendingOperations_start now s) = Sent body"
      unfolding started by simp
    then obtain body where "fst (processPendingOperations_start now s) = Sent body" ..
    with after_send [of body] first
    show "(\<exists>body. fst (processPendingOperations_start now s) = Sent body)
        \<and> processPendingOperations_start now'
            (fold queueOperation ops (snd (processPendingOperations_start now s)))
          = (NotStarted, fold queueOperation ops (snd (processPendingOperations_start now s)))"
      by blast
  qed
  have system: "cache (service w) = Some c \<and> objects c = ItemArray objs
        \<and> \<not> isProcessing (service w) \<and> pendingOperations (service w) \<noteq> [] \<longrightarrow>
        (\<exists>body. requests (run [FlushRequested now, FlushRequested now'] w)
                   = requests w @ [body])"
  proof (intro impI, elim conjE)
    assume a: "cache (service w) = Some c" "objects c = ItemArray objs"
      "\<not> isProcessing (service w)" "pendingOperations (service w) \<noteq> []"
    note started = start_passes_guard [OF a, of now]
    show "\<exists>body. requests (run [FlushRequested now, FlushRequested now'] w)
                   = requests w @ [body]"
      by (simp add: run_def started start_stops_at_guard)
  qed
  have at_most: "length (requests (run [FlushRequested now, FlushRequested now'] w))
        \<le> length (requests w) + 1"
  proof (cases rule: start_cases [of "service w" now])
    case guard
    then show ?thesis by (simp add: run_def split: prod.split flush_request.split)
  next
    case threw
    then show ?thesis by (simp add: run_def start_stops_at_guard)
  next
    case (sent c' objs')
    then show ?thesis by (simp add: run_def start_stops_at_guard)
  qed
  have "flush_exclusive (initial_system d)"
    by (simp add: flush_exclusive_def initial_system_def initial_service_def)
  then have "flush_exclusive (run events (initial_system d))"
    by (rule run_exclusive)
  then have trace: "length (in_flight (run events (initial_system d))) \<le> 1"
    by (simp add: flush_exclusive_def)
  from guard twice after_send [of sent] system at_most trace show ?thesis by (intro conjI)
qed

theorem at_most_one_flush_in_flight_witness:
  "requests (run [Loaded ''t0'' (GetHttp True BodyNoRecord),
                  Queued (AddOp (example_item ''a'' 1 2)),
                  FlushRequested ''t1'', FlushRequested ''t2''] (initial_system None))
     = [\<lparr>objects = ItemArray [example_item ''a'' 1 2], lastUpdated = ''t1'', version = 2\<rparr>]
   \<and> processPendingOperations_start ''t1'' initial_service = (NotStarted, initial_service)"
proof -
  let ?w = "run [Loaded ''t0'' (GetHttp True BodyNoRecord),
                 Queued (AddOp (example_item ''a'' 1 2))] (initial_system None)"
  let ?c = "\<lparr>objects = ItemArray [], lastUpdated = ''t0'', version = 1\<rparr>"
  have w: "?w = \<lparr>service = \<lparr>cache = Some ?c,
                   pendingOperations = [AddOp (example_item ''a'' 1 2)],
                   isProcessing = False, lastVersion = 1\<rparr>,
                 in_flight = [], requests = [], stored = None\<rparr>"
    by (simp add: run_def initial_system_def initial_service_def loadObjects_def
        document_of_record_def queueOperation_def)
  note fact = at_most_one_flush_in_flight [of initial_service "''t1''" ?c "[]" "''t2''" "[]"
      undefined ?w "[]" None]
  have guard_pre: "isProcessing initial_service \<or> pendingOperations initial_service = []
      \<or> cache initial_service = None"
    by (simp add: initial_service_def)
  from fact guard_pre have 2:
    "processPendingOperations_start ''t1'' initial_service = (NotStarted, initial_service)"
    by blast
  have inc: "js_increment 1 = 2"
    by (simp add: js_increment_def double_of_int_def)
  have 1: "requests (run [Loaded ''t0'' (GetHttp True BodyNoRecord),
                  Queued (AddOp (example_item ''a'' 1 2)),
                  FlushRequested ''t1'', FlushRequested ''t2''] (initial_system None))
     = [\<lparr>objects = ItemArray [example_item ''a'' 1 2], lastUpdated = ''t1'', version = 2\<rparr>]"
    by (simp add: run_def initial_system_def initial_service_def loadObjects_def
        document_of_record_def queueOperation_def processPendingOperations_start_def
        run_operation_def example_item_def Let_def inc)
  from 1 2 show ?thesis by (intro conjI)
qed

section \<open>Version monotonicity\<close>

text \<open>
  Claim C2, as stated: after \<open>N\<close> successful flushes starting from a loaded version of
  1 the stored version is \<open>N + 1\<close>, each successful flush recording the version it
  stored. It fails when a load completes while a \<open>PUT\<close> is under way: the second part
  of the flush reads the version back from the cache, which the load has replaced.
  Below, a load fails during the first of two successful flushes; both \<open>PUT\<close>s carry
  version 2 and the bin ends at version 2, not 3. It also fails from \<open>2^53\<close> on, where
  adding 1 to a double gives the same double.
\<close>

theorem version_repeats_after_load_in_flight:
  "map version (requests (run
      [Loaded ''t0'' (GetHttp True (BodyRecord
         \<lparr>r_objects = Some (ItemArray []), r_lastUpdated = Some ''t'', r_version = Some 1\<rparr>)),
       Queued (AddOp (example_item ''a'' 1 2)), FlushRequested ''t1'',
       Loaded ''t2'' GetNetworkError, PutSettled (PutHttp True),
       Queued (AddOp (example_item ''b'' 3 4)), FlushRequested ''t3'',
       PutSettled (PutHttp True)]
      (initial_system (Some \<lparr>objects = ItemArray [], lastUpdated = ''t'', version = 1\<rparr>))))
     = [2, 2]
   \<and> map_option version (stored (run
      [Loaded ''t0'' (GetHttp True (BodyRecord
         \<lparr>r_objects = Some (ItemArray []), r_lastUpdated = Some ''t'', r_version = Some 1\<rparr>)),
       Queued (AddOp (example_item ''a'' 1 2)), FlushRequested ''t1'',
       Loaded ''t2'' GetNetworkError, PutSettled (PutHttp True),
       Queued (AddOp (example_item ''b'' 3 4)), FlushRequested ''t3'',
       PutSettled (PutHttp True)]
      (initial_system (Some \<lparr>objects = ItemArray [], lastUpdated = ''t'', version = 1\<rparr>))))
     = Some 2
   \<and> js_increment 9007199254740992 = 9007199254740992"
proof -
  have inc: "js_increment 1 = 2"
    by (simp add: js_increment_def double_of_int_def)
  have big: "js_increment 9007199254740992 = 9007199254740992"
    by (simp add: js_increment_def double_of_int_def unit_of.simps)
  show ?thesis
    by (simp add: run_def initial_system_def initial_service_def loadObjects_def
        document_of_record_def empty_document_def queueOperation_def
        processPendingOperations_start_def processPendingOperations_finish_def
        run_operation_def Let_def inc big)
qed

text \<open>
  Claim C2, amended. A flush that sends its \<open>PUT\<close> sends the increment of
  \<open>lastVersion\<close>, which is \<open>lastVersion + 1\<close> below \<open>2^53\<close>, and when the \<open>PUT\<close> succeeds
  with no load completing in between, \<open>lastVersion\<close> becomes the version sent. Start
  with \<open>lastVersion\<close> and the document in the bin at version 1 and nothing in flight,
  and take any run in which a load completes only while no \<open>PUT\<close> is under way and
  delivers, when it delivers a document, the version the bin holds. As long as the
  versions stay within \<open>2^53\<close>, the version in the bin and \<open>lastVersion\<close> are 1 plus the
  number of successful flushes of the run; after \<open>N\<close> rounds of queueing, flushing
  and a successful \<open>PUT\<close> they are \<open>N + 1\<close>.
\<close>

theorem version_counts_successful_flushes:
  assumes "lastVersion (service w) = 1" and "map_option version (stored w) = Some 1"
    and "in_flight w = []" and "\<not> isProcessing (service w)"
    and "admissible events w" and "1 + int (successes events w) \<le> 2 ^ 53"
  shows "map_option version (stored (run events w)) = Some (1 + int (successes events w))
    \<and> lastVersion (service (run events w)) = 1 + int (successes events w)
    \<and> (holds_array (service w) \<and> pendingOperations (service w) = []
        \<and> (\<forall>round \<in> set rounds. fst (snd round) \<noteq> [] \<and> put_succeeded (snd (snd round)))
        \<and> int (length rounds) + 1 \<le> 2 ^ 53 \<longrightarrow>
         map_option version (stored (run (concat (map flush_round rounds)) w)) =
           Some (int (length rounds) + 1)
         \<and> lastVersion (service (run (concat (map flush_round rounds)) w)) =
           int (length rounds) + 1)
    \<and> (processPendingOperations_start now s = (Sent body, s1) \<longrightarrow>
         version body = js_increment (lastVersion s)
         \<and> (put_succeeded outcome \<longrightarrow>
             fst (processPendingOperations now outcome s) = True
             \<and> lastVersion (snd (snd (processPendingOperations now outcome s))) = version body))
    \<and> (0 \<le> v \<and> v < 2 ^ 53 \<longrightarrow> js_increment v = v + 1)"
proof -
  have start: "in_step 1 w"
    using assms(1-4) by (simp add: in_step_def)
  from run_in_step [OF start assms(5) _ assms(6)]
  have final: "in_step (1 + int (successes events w)) (run events w)"
    by simp
  then have 1: "map_option version (stored (run events w)) = Some (1 + int (successes events w))"
    and 2: "lastVersion (service (run events w)) = 1 + int (successes events w)"
    by (simp_all add: in_step_def)
  have 3: "holds_array (service w) \<and> pendingOperations (service w) = []
        \<and> (\<forall>round \<in> set rounds. fst (snd round) \<noteq> [] \<and> put_succeeded (snd (snd round)))
        \<and> int (length rounds) + 1 \<le> 2 ^ 53 \<longrightarrow>
         map_option version (stored (run (concat (map flush_round rounds)) w)) =
           Some (int (length rounds) + 1)
         \<and> lastVersion (service (run (concat (map flush_round rounds)) w)) =
           int (length rounds) + 1"
  proof (intro impI, elim conjE)
    assume a: "holds_array (service w)" "pendingOperations (service w) = []"
      "\<forall>round \<in> set rounds. fst (snd round) \<noteq> [] \<and> put_succeeded (snd (snd round))"
      "int (length rounds) + 1 \<le> 2 ^ 53"
    have idle: "idle_at_version 1 w"
      using a(1,2) assms(1-4) by (simp add: idle_at_version_def)
    have queued: "\<forall>round \<in> set rounds. fst (snd round) \<noteq> []"
      using a(3) by simp
    have "filter (\<lambda>round. put_succeeded (snd (snd round))) rounds = rounds"
      using a(3) by (simp add: filter_id_conv)
    then have count: "1 + int (length (filter (\<lambda>round. put_succeeded (snd (snd round))) rounds))
        = int (length rounds) + 1"
      by simp
    have bound: "1 + int (length (filter (\<lambda>round. put_succeeded (snd (snd round))) rounds))
        \<le> 2 ^ 53"
      using a(4) unfolding count by simp
    from run_flush_rounds [OF idle queued _ bound]
    have "idle_at_version (int (length rounds) + 1) (run (concat (map flush_round rounds)) w)"
      unfolding count by simp
    then show "map_option version (stored (run (concat (map flush_round rounds)) w)) =
           Some (int (length rounds) + 1)
         \<and> lastVersion (service (run (concat (map flush_round rounds)) w)) =
           int (length rounds) + 1"
      by (simp add: idle_at_version_def)
  qed
  have 4: "processPendingOperations_start now s = (Sent body, s1) \<longrightarrow>
         version body = js_increment (lastVersion s)
         \<and> (put_succeeded outcome \<longrightarrow>
             fst (processPendingOperations now outcome s) = True
             \<and> lastVersion (snd (snd (processPendingOperations now outcome s))) = version body)"
  proof
    assume sent: "processPendingOperations_start now s = (Sent body, s1)"
    then show "version body = js_increment (lastVersion s)
         \<and> (put_succeeded outcome \<longrightarrow>
             fst (processPendingOperations now outcome s) = True
             \<and> lastVersion (snd (snd (processPendingOperations now outcome s))) = version body)"
      by (cases rule: start_cases [of s now])
        (auto simp: processPendingOperations_def processPendingOperations_finish_def)
  qed
  have 5: "0 \<le> v \<and> v < 2 ^ 53 \<longrightarrow> js_increment v = v + 1"
    by (simp add: js_increment_exact)
  from 1 2 3 4 5 show ?thesis by (intro conjI)
qed

theorem version_counts_successful_flushes_witness:
  "map_option version (stored (run
      [Queued (AddOp (example_item ''a'' 1 2)), FlushRequested ''t1'',
       Queued (UpdateOp ''a'' 5 5), FlushRequested ''t2'', PutSettled (PutHttp True),
       Loaded ''t3'' GetNetworkError,
       Queued (AddOp (example_item ''b'' 3 4)), FlushRequested ''t4'',
       PutSettled PutNetworkError,
       Queued (RemoveOp ''a''), FlushRequested ''t5'', PutSettled (PutHttp True)]
      (run [Loaded ''t0'' (GetHttp True (BodyRecord
              \<lparr>r_objects = Some (ItemArray []), r_lastUpdated = Some ''t'',
                r_version = Some 1\<rparr>))]
         (initial_system (Some \<lparr>objects = ItemArray [], lastUpdated = ''t'', version = 1\<rparr>)))))
   = Some 3"
proof -
  let ?w = "run [Loaded ''t0'' (GetHttp True (BodyRecord
              \<lparr>r_objects = Some (ItemArray []), r_lastUpdated = Some ''t'',
                r_version = Some 1\<rparr>))]
         (initial_system (Some \<lparr>objects = ItemArray [], lastUpdated = ''t'', version = 1\<rparr>))"
  let ?events = "[Queued (AddOp (example_item ''a'' 1 2)), FlushRequested ''t1'',
       Queued (UpdateOp ''a'' 5 5), FlushRequested ''t2'', PutSettled (PutHttp True),
       Loaded ''t3'' GetNetworkError,
       Queued (AddOp (example_item ''b'' 3 4)), FlushRequested ''t4'',
       PutSettled PutNetworkError,
       Queued (RemoveOp ''a''), FlushRequested ''t5'', PutSettled (PutHttp True)]"
  have w: "?w = \<lparr>service = \<lparr>cache = Some \<lparr>objects = ItemArray [], lastUpdated = ''t'',
                                          version = 1\<rparr>,
                   pendingOperations = [], isProcessing = False, lastVersion = 1\<rparr>,
                 in_flight = [], requests = [],
                 stored = Some \<lparr>objects = ItemArray [], lastUpdated = ''t'', version = 1\<rparr>\<rparr>"
    by (simp add: run_def initial_system_def initial_service_def loadObjects_def
        document_of_record_def)
  have inc: "js_increment 1 = 2" "js_increment 2 = 3"
    by (simp_all add: js_increment_def double_of_int_def)
  have 1: "lastVersion (service ?w) = 1" and 2: "map_option version (stored ?w) = Some 1"
    and 3: "in_flight ?w = []" and 4: "\<not> isProcessing (service ?w)"
    unfolding w by simp_all
  have 5: "admissible ?events ?w"
    unfolding w
    by (simp add: queueOperation_def processPendingOperations_start_def
        processPendingOperations_finish_def run_operation_def loadObjects_def
        empty_document_def Let_def inc)
  have count: "successes ?events ?w = 2"
    unfolding w
    by (simp add: queueOperation_def processPendingOperations_start_def
        processPendingOperations_finish_def run_operation_def loadObjects_def
        empty_document_def Let_def inc)
  have 6: "1 + int (successes ?events ?w) \<le> 2 ^ 53"
    unfolding count by simp
  from version_counts_successful_flushes [OF 1 2 3 4 5 6]
  have "map_option version (stored (run ?events ?w)) = Some (1 + int (successes ?events ?w))"
    by (rule conjunct1)
  then show ?thesis
    unfolding count by simp
qed

section \<open>The reset operation\<close>

text \<open>
  Claim C8. \<open>resetObjects\<close> sends one \<open>PUT\<close> of the empty document at once, whatever the
  state of the queue and of the flush flag, and changes neither the queue nor any
  other field of the service; when the \<open>PUT\<close> succeeds the bin holds
  \<open>{objects: [], lastUpdated: now, version: 1}\<close>. The handler, given the input
  \<open>__reset\<close>, runs it and empties the caller's view.
\<close>

theorem resetObjects_clears_remote_document:
  "stored (resetObjects now (PutHttp True) w)
     = Some \<lparr>objects = ItemArray [], lastUpdated = now, version = 1\<rparr>
   \<and> requests (resetObjects now outcome w)
     = requests w @ [\<lparr>objects = ItemArray [], lastUpdated = now, version = 1\<rparr>]
   \<and> service (resetObjects now outcome w) = service w
   \<and> in_flight (resetObjects now outcome w) = in_flight w
   \<and> (trim input = ''__reset'' \<longrightarrow>
        handleCustomObject trim isEmoji now outcome input view w
          = (None, [], resetObjects now outcome w))"
  by (simp add: resetObjects_def empty_document_def handleCustomObject_def)

theorem resetObjects_clears_remote_document_witness:
  "handleCustomObject (\<lambda>input. input) (\<lambda>trimmed. length trimmed = 1) ''now'' (PutHttp True)
      ''__reset'' [example_item ''a'' 1 2]
      (initial_system (Some \<lparr>objects = ItemArray [example_item ''a'' 1 2], lastUpdated = ''t'',
                              version = 4\<rparr>))
   = (None, [],
      \<lparr>service = initial_service, in_flight = [],
       requests = [\<lparr>objects = ItemArray [], lastUpdated = ''now'', version = 1\<rparr>],
       stored = Some \<lparr>objects = ItemArray [], lastUpdated = ''now'', version = 1\<rparr>\<rparr>)"
proof -
  let ?w = "initial_system (Some \<lparr>objects = ItemArray [example_item ''a'' 1 2],
                              lastUpdated = ''t'', version = 4\<rparr>)"
  note fact = resetObjects_clears_remote_document [of "''now''" ?w "PutHttp True"
      "\<lambda>input. input" "''__reset''" "\<lambda>trimmed. length trimmed = 1" "[example_item ''a'' 1 2]"]
  have pre: "(\<lambda>input. input) ''__reset'' = ''__reset''" by simp
  from fact pre have handled:
    "handleCustomObject (\<lambda>input. input) (\<lambda>trimmed. length trimmed = 1) ''now'' (PutHttp True)
       ''__reset'' [example_item ''a'' 1 2] ?w = (None, [], resetObjects ''now'' (PutHttp True) ?w)"
    by blast
  have "resetObjects ''now'' (PutHttp True) ?w =
      \<lparr>service = initial_service, in_flight = [],
       requests = [\<lparr>objects = ItemArray [], lastUpdated = ''now'', version = 1\<rparr>],
       stored = Some \<lparr>objects = ItemArray [], lastUpdated = ''now'', version = 1\<rparr>\<rparr>"
    by (simp add: resetObjects_def empty_document_def initial_system_def)
  with handled show ?thesis by simp
qed

end
